theory Spec2Isabelle
  imports Main "HOL-Library.Word"
begin

unbundle bit_operations_syntax

section \<open>The IMSIC driver of OpenSBI (lib/utils/irqchip/imsic.c)\<close>

text \<open>
  A shallow embedding of the incoming-MSI controller driver. The C type
  \<^verbatim>\<open>unsigned long\<close> is \<open>'a word\<close>: the native word width \<^verbatim>\<open>__riscv_xlen\<close>
  (also \<^verbatim>\<open>BITS_PER_LONG\<close>) is \<open>LENGTH('a)\<close>, which is 32 on RV32 and 64 on RV64.
  \<^verbatim>\<open>u32\<close> and \<^verbatim>\<open>int\<close> are \<open>32 word\<close>. All arithmetic wraps as the C unsigned
  arithmetic does.
\<close>

subsection \<open>Data model\<close>

type_synonym u32 = "32 word"

text \<open>
  Modelled from the spec: \<^verbatim>\<open>struct imsic_regs\<close> and \<^verbatim>\<open>struct imsic_data\<close> are declared
  in imsic.h, which is outside the file verified here. The fields are those of the
  controller instance of the data model, under the names the code uses. The four index
  fields are \<^verbatim>\<open>u32\<close>, as the local \<^verbatim>\<open>u32 tmp\<close> that the code compares them with; the
  number of identities, the addresses and the sizes are \<^verbatim>\<open>unsigned long\<close>. The type
  parameter \<open>'w\<close> is the type of \<^verbatim>\<open>unsigned long\<close>, always instantiated with
  \<open>'a word\<close>. The window array \<^verbatim>\<open>regs[IMSIC_MAX_REGS]\<close> is a list; its length is the
  capacity \<^verbatim>\<open>IMSIC_MAX_REGS\<close>, and an entry of size zero ends the windows in use.
\<close>

record 'w imsic_regs =
  addr :: "'w"
  size_bytes :: "'w"

record 'w imsic_data =
  targets_mmode :: bool
  guest_index_bits :: u32
  hart_index_bits :: u32
  group_index_bits :: u32
  group_index_shift :: u32
  num_ids :: "'w"
  regs :: "'w imsic_regs list"

text \<open>
  Modelled from the spec: the error codes of sbi_error.h that the driver returns. It has
  one code for every invalid input, \<^verbatim>\<open>SBI_EINVAL\<close>.
\<close>

datatype sbi_error = SBI_EINVAL | SBI_ENOENT | SBI_ENOMEM

text \<open>A status return: \<open>Inr ()\<close> is the C return value 0.\<close>

type_synonym status = "sbi_error + unit"

definition BITS_PER_LONG :: "'a::len itself \<Rightarrow> u32" where
  "BITS_PER_LONG t = of_nat LENGTH('a)"

definition riscv_xlen :: "'a::len itself \<Rightarrow> 'a word" where
  "riscv_xlen t = of_nat LENGTH('a)"

text \<open>
  Modelled from the spec: \<^verbatim>\<open>IMSIC_MMIO_PAGE_SHIFT\<close> and \<^verbatim>\<open>IMSIC_MMIO_PAGE_SZ\<close> are
  macros of imsic.h. The page of one interrupt file has 4096 bytes (the offset of file 1
  with no guest bits is 4096), so the page shift is 12.
\<close>

definition IMSIC_MMIO_PAGE_SHIFT :: nat where
  "IMSIC_MMIO_PAGE_SHIFT = 12"

definition IMSIC_MMIO_PAGE_SZ :: "'a::len word" where
  "IMSIC_MMIO_PAGE_SZ = push_bit IMSIC_MMIO_PAGE_SHIFT 1"


definition IMSIC_MIN_ID :: "'a::len word" where
  "IMSIC_MIN_ID = 63"

definition IMSIC_MAX_ID :: "'a::len word" where
  "IMSIC_MAX_ID = 2047"

definition IMSIC_TOPEI_ID_SHIFT :: nat where
  "IMSIC_TOPEI_ID_SHIFT = 16"

definition IMSIC_EIP0 :: "'a::len word" where
  "IMSIC_EIP0 = 0x80"

definition IMSIC_EIE0 :: "'a::len word" where
  "IMSIC_EIE0 = 0xc0"

definition IMSIC_EIPx_BITS :: nat where
  "IMSIC_EIPx_BITS = 32"

definition IMSIC_EIDELIVERY :: "'a::len word" where
  "IMSIC_EIDELIVERY = 0x70"

definition IMSIC_EITHRESHOLD :: "'a::len word" where
  "IMSIC_EITHRESHOLD = 0x72"

definition IMSIC_ENABLE_EIDELIVERY :: "'a::len word" where
  "IMSIC_ENABLE_EIDELIVERY = 1"

definition IMSIC_ENABLE_EITHRESHOLD :: "'a::len word" where
  "IMSIC_ENABLE_EITHRESHOLD = 0"

definition IMSIC_IPI_ID :: "'a::len word" where
  "IMSIC_IPI_ID = 1"

subsection \<open>Topology validation: \<^verbatim>\<open>imsic_data_check\<close>\<close>

text \<open>
  A left shift of an \<^verbatim>\<open>unsigned long\<close> by its width or more is undefined in C. The
  model makes that an outcome of its own: \<open>None\<close>.
\<close>

definition shl_ul :: "'a::len word \<Rightarrow> nat \<Rightarrow> 'a word option" where
  "shl_ul x n = (if n < LENGTH('a) then Some (push_bit n x) else None)"

text \<open>
  Lines 289 to 309: the checks of the index widths and of the group shift. The local
  \<^verbatim>\<open>tmp\<close> is a \<^verbatim>\<open>u32\<close>, so each expression assigned to it is computed modulo \<open>2 ^ 32\<close>.
  \<open>True\<close> means that no check returned \<^verbatim>\<open>SBI_EINVAL\<close>.
\<close>

definition imsic_index_bits_ok :: "('a::len word) imsic_data \<Rightarrow> bool" where
  "imsic_index_bits_ok imsic =
    (if BITS_PER_LONG TYPE('a) - of_nat IMSIC_MMIO_PAGE_SHIFT < guest_index_bits imsic
       then False
     else if BITS_PER_LONG TYPE('a) - of_nat IMSIC_MMIO_PAGE_SHIFT - guest_index_bits imsic
               < hart_index_bits imsic
       then False
     else if BITS_PER_LONG TYPE('a) - of_nat IMSIC_MMIO_PAGE_SHIFT - guest_index_bits imsic
               - hart_index_bits imsic < group_index_bits imsic
       then False
     else if group_index_shift imsic
               < of_nat IMSIC_MMIO_PAGE_SHIFT + guest_index_bits imsic + hart_index_bits imsic
       then False
     else if BITS_PER_LONG TYPE('a) \<le> group_index_bits imsic + group_index_shift imsic - 1
       then False
     else True)"

text \<open>
  Lines 323 to 328 and again 335 to 340: an address with its low
  \<open>guest_index_bits + hart_index_bits + PAGE_SHIFT\<close> bits and its group field cleared.
\<close>

definition imsic_masked_addr :: "('a::len word) imsic_data \<Rightarrow> 'a word \<Rightarrow> 'a word option" where
  "imsic_masked_addr imsic a =
    (case shl_ul 1 (unat (guest_index_bits imsic + hart_index_bits imsic
                            + of_nat IMSIC_MMIO_PAGE_SHIFT)) of
       None \<Rightarrow> None
     | Some lo \<Rightarrow>
        (case shl_ul 1 (unat (group_index_bits imsic)) of
           None \<Rightarrow> None
         | Some g \<Rightarrow>
            (case shl_ul (g - 1) (unat (group_index_shift imsic)) of
               None \<Rightarrow> None
             | Some gm \<Rightarrow> Some ((a AND NOT (lo - 1)) AND NOT gm))))"

text \<open>
  The loop of lines 329 to 343 over the windows, up to the end of the array or the first
  window of size zero.
\<close>

fun imsic_regs_check ::
  "('a::len word) imsic_data \<Rightarrow> 'a word \<Rightarrow> ('a word) imsic_regs list \<Rightarrow> status option" where
  "imsic_regs_check imsic base_addr [] = Some (Inr ())"
| "imsic_regs_check imsic base_addr (r # rs) =
    (if size_bytes r = 0 then Some (Inr ())
     else
       (case shl_ul 1 (unat (guest_index_bits imsic)) of
          None \<Rightarrow> None
        | Some s \<Rightarrow>
           (if size_bytes r AND (s * IMSIC_MMIO_PAGE_SZ - 1) \<noteq> 0 then Some (Inl SBI_EINVAL)
            else
              (case imsic_masked_addr imsic (addr r) of
                 None \<Rightarrow> None
               | Some a \<Rightarrow>
                  (if base_addr \<noteq> a then Some (Inl SBI_EINVAL)
                   else imsic_regs_check imsic base_addr rs)))))"

text \<open>
  \<^verbatim>\<open>imsic_data_check\<close>. The argument is the pointer: \<open>None\<close> is \<^verbatim>\<open>NULL\<close>. The result
  \<open>None\<close> is undefined behaviour (a shift by the word width or more).
\<close>

definition imsic_data_check :: "('a::len word) imsic_data option \<Rightarrow> status option" where
  "imsic_data_check p =
    (case p of
       None \<Rightarrow> Some (Inl SBI_EINVAL)
     | Some imsic \<Rightarrow>
        (if num_ids imsic < IMSIC_MIN_ID \<or> IMSIC_MAX_ID < num_ids imsic
           then Some (Inl SBI_EINVAL)
         else if \<not> imsic_index_bits_ok imsic then Some (Inl SBI_EINVAL)
         else if num_ids imsic AND IMSIC_MIN_ID \<noteq> IMSIC_MIN_ID then Some (Inl SBI_EINVAL)
         else
           (case regs imsic of
              [] \<Rightarrow> None
            | r0 # rest \<Rightarrow>
               (if size_bytes r0 = 0 then Some (Inl SBI_EINVAL)
                else
                  (case imsic_masked_addr imsic (addr r0) of
                     None \<Rightarrow> None
                   | Some base_addr \<Rightarrow> imsic_regs_check imsic base_addr (regs imsic))))))"

subsection \<open>The hart binding registry\<close>

text \<open>
  Modelled from the spec: the per-hart scratch storage is owned by a collaborator
  (sbi_scratch.h is outside the file verified here). The two lookups
  \<^verbatim>\<open>sbi_hartid_to_scratch\<close> and \<^verbatim>\<open>sbi_hartindex_to_scratch\<close> return a scratch area or
  \<^verbatim>\<open>NULL\<close> (\<open>None\<close>); the typed accessors read and write the word stored at an
  offset within a scratch area. Both slots of this driver are word sized
  (\<^verbatim>\<open>void *\<close> and \<^verbatim>\<open>long\<close>), and the allocator hands out word-aligned offsets, so a
  scratch area is a function from offsets to words.

  The state also holds the two static offsets of the driver (both 0 until cold
  initialisation allocates them) and the memory that holds the controller instances:
  a pointer to a \<^verbatim>\<open>struct imsic_data\<close> is a word, 0 is \<^verbatim>\<open>NULL\<close>.
\<close>

record 'w imsic_state =
  imsic_ptr_offset :: "'w"
  imsic_file_offset :: "'w"
  hartid_to_scratch :: "u32 \<Rightarrow> nat option"
  hartindex_to_scratch :: "u32 \<Rightarrow> nat option"
  scratch_mem :: "nat \<Rightarrow> 'w \<Rightarrow> 'w"
  imsic_heap :: "'w \<Rightarrow> 'w imsic_data"

definition sbi_scratch_read :: "('a::len word) imsic_state \<Rightarrow> nat \<Rightarrow> 'a word \<Rightarrow> 'a word" where
  "sbi_scratch_read s scratch offset = scratch_mem s scratch offset"

definition sbi_scratch_write ::
  "('a::len word) imsic_state \<Rightarrow> nat \<Rightarrow> 'a word \<Rightarrow> 'a word \<Rightarrow> ('a word) imsic_state" where
  "sbi_scratch_write s scratch offset v =
     s\<lparr>scratch_mem := (scratch_mem s)(scratch := (scratch_mem s scratch)(offset := v))\<rparr>"

definition imsic_get_hart_data_ptr :: "('a::len word) imsic_state \<Rightarrow> nat \<Rightarrow> 'a word" where
  "imsic_get_hart_data_ptr s scratch = sbi_scratch_read s scratch (imsic_ptr_offset s)"

definition imsic_set_hart_data_ptr ::
  "('a::len word) imsic_state \<Rightarrow> nat \<Rightarrow> 'a word \<Rightarrow> ('a word) imsic_state" where
  "imsic_set_hart_data_ptr s scratch imsic = sbi_scratch_write s scratch (imsic_ptr_offset s) imsic"

text \<open>The file slot is a \<^verbatim>\<open>long\<close>.\<close>

definition imsic_get_hart_file :: "('a::len word) imsic_state \<Rightarrow> nat \<Rightarrow> 'a word" where
  "imsic_get_hart_file s scratch = sbi_scratch_read s scratch (imsic_file_offset s)"

definition imsic_set_hart_file ::
  "('a::len word) imsic_state \<Rightarrow> nat \<Rightarrow> 'a word \<Rightarrow> ('a word) imsic_state" where
  "imsic_set_hart_file s scratch file = sbi_scratch_write s scratch (imsic_file_offset s) file"

text \<open>
  \<^verbatim>\<open>imsic_map_hartid_to_data\<close>: the status and the state after the call. The \<^verbatim>\<open>int\<close>
  file is sign-extended to the \<^verbatim>\<open>long\<close> slot.
\<close>

definition imsic_map_hartid_to_data ::
  "('a::len word) imsic_state \<Rightarrow> u32 \<Rightarrow> 'a word \<Rightarrow> u32 \<Rightarrow> status \<times> ('a word) imsic_state" where
  "imsic_map_hartid_to_data s hartid imsic file =
    (if imsic = 0 \<or> \<not> targets_mmode (imsic_heap s imsic) then (Inl SBI_EINVAL, s)
     else
       (case hartid_to_scratch s hartid of
          None \<Rightarrow> (Inr (), s)
        | Some scratch \<Rightarrow>
           (Inr (),
            imsic_set_hart_file (imsic_set_hart_data_ptr s scratch imsic) scratch (scast file))))"

text \<open>\<^verbatim>\<open>imsic_get_data\<close>: the pointer recorded for a hart, 0 for \<^verbatim>\<open>NULL\<close>.\<close>

definition imsic_get_data :: "('a::len word) imsic_state \<Rightarrow> u32 \<Rightarrow> 'a word" where
  "imsic_get_data s hartindex =
    (if imsic_ptr_offset s = 0 then 0
     else
       (case hartindex_to_scratch s hartindex of
          None \<Rightarrow> 0
        | Some scratch \<Rightarrow> imsic_get_hart_data_ptr s scratch))"

text \<open>
  \<^verbatim>\<open>imsic_get_target_file\<close>: the \<^verbatim>\<open>long\<close> slot truncated to the \<^verbatim>\<open>int\<close> result, or
  \<^verbatim>\<open>SBI_ENOENT\<close>.
\<close>

definition imsic_get_target_file :: "('a::len word) imsic_state \<Rightarrow> u32 \<Rightarrow> sbi_error + u32" where
  "imsic_get_target_file s hartindex =
    (if imsic_file_offset s = 0 then Inl SBI_ENOENT
     else
       (case hartindex_to_scratch s hartindex of
          None \<Rightarrow> Inl SBI_ENOENT
        | Some scratch \<Rightarrow> Inr (ucast (imsic_get_hart_file s scratch))))"

subsection \<open>The indirect register bus\<close>

text \<open>
  The hardware is driven through control and status registers. A run of the driver is
  described by the list of register operations it issues, in order.
\<close>

datatype csr = CSR_MISELECT | CSR_MIREG | CSR_MTOPI

datatype 'w csr_op =
    CSR_WRITE csr 'w
  | CSR_SET csr 'w
  | CSR_CLEAR csr 'w
  | CSR_READ_ALLOWED csr

definition imsic_csr_write :: "'a::len word \<Rightarrow> 'a word \<Rightarrow> ('a word) csr_op list" where
  "imsic_csr_write c v = [CSR_WRITE CSR_MISELECT c, CSR_WRITE CSR_MIREG v]"

definition imsic_csr_set :: "'a::len word \<Rightarrow> 'a word \<Rightarrow> ('a word) csr_op list" where
  "imsic_csr_set c v = [CSR_WRITE CSR_MISELECT c, CSR_SET CSR_MIREG v]"

definition imsic_csr_clear :: "'a::len word \<Rightarrow> 'a word \<Rightarrow> ('a word) csr_op list" where
  "imsic_csr_clear c v = [CSR_WRITE CSR_MISELECT c, CSR_CLEAR CSR_MIREG v]"

text \<open>
  The inner loop of \<^verbatim>\<open>imsic_local_eix_update\<close> (lines 217 to 221): from bit \<open>i\<close> on,
  one bit of the mask for each identity below \<open>last_id\<close>, up to the end of the word.
  It returns the identity reached and the mask.
\<close>

function eix_word_mask ::
  "'a::len word \<Rightarrow> 'a word \<Rightarrow> 'a word \<Rightarrow> 'a word \<Rightarrow> 'a word \<times> 'a word" where
  "eix_word_mask last_id i idn ireg =
     (if idn < last_id \<and> i < riscv_xlen TYPE('a)
      then eix_word_mask last_id (i + 1) (idn + 1) (ireg OR push_bit (unat i) 1)
      else (idn, ireg))"
  by pat_completeness auto
termination
  by (relation "measure (\<lambda>(last_id, i, idn, ireg). unat last_id - unat idn)")
    (auto simp: word_less_nat_alt unat_word_ariths less_trans_Suc)

declare eix_word_mask.simps [simp del]

text \<open>The register index of the word that holds identity \<open>idn\<close> (lines 212 to 214).\<close>

definition eix_isel :: "bool \<Rightarrow> 'a::len word \<Rightarrow> 'a word" where
  "eix_isel pend idn =
     (idn div riscv_xlen TYPE('a)) * of_nat (LENGTH('a) div IMSIC_EIPx_BITS)
       + (if pend then IMSIC_EIP0 else IMSIC_EIE0)"

text \<open>
  The outer loop (lines 211 to 227): one select-then-access pair for each native word
  that the range touches.
\<close>

function eix_update_loop ::
  "'a::len word \<Rightarrow> 'a word \<Rightarrow> bool \<Rightarrow> bool \<Rightarrow> ('a word) csr_op list" where
  "eix_update_loop idn last_id pend val =
     (if idn < last_id then
        (case eix_word_mask last_id (idn AND (riscv_xlen TYPE('a) - 1)) idn 0 of
           (idn', ireg) \<Rightarrow>
             (if val then imsic_csr_set (eix_isel pend idn) ireg
              else imsic_csr_clear (eix_isel pend idn) ireg)
             @ eix_update_loop idn' last_id pend val)
      else [])"
  by pat_completeness auto
termination
proof (relation "measure (\<lambda>(idn, last_id, pend, val). unat last_id - unat idn)")
  show "wf (measure (\<lambda>(idn :: 'a word, last_id :: 'a word, pend :: bool, val :: bool). unat last_id - unat idn))"
    by simp
next
  fix idn last_id :: "'a word" and pend val :: bool and idn' ireg :: "'a word"
  assume lt: "idn < last_id"
    and x: "(idn', ireg) = eix_word_mask last_id (idn AND (riscv_xlen TYPE('a) - 1)) idn 0"
  have suc: "unat (a + 1) = Suc (unat a)" if "a < b" for a b :: "'a word"
  proof -
    have "unat b < 2 ^ LENGTH('a)"
      by simp
    moreover have "unat a < unat b"
      using that by (simp add: word_less_nat_alt)
    ultimately have "unat a + 1 < 2 ^ LENGTH('a)"
      by linarith
    then have "unat a + unat (1 :: 'a word) < 2 ^ LENGTH('a)"
      by simp
    then show ?thesis
      by (simp add: unat_add_lem [THEN iffD1])
  qed
  have mono: "idn < last_id \<Longrightarrow> i < riscv_xlen TYPE('a) \<Longrightarrow>
      unat idn < unat (fst (eix_word_mask last_id i idn r))
      \<and> unat (fst (eix_word_mask last_id i idn r)) \<le> unat last_id"
    for i idn r :: "'a word"
  proof (induction last_id i idn r rule: eix_word_mask.induct)
    case (1 last_id i idn ireg)
    have s: "unat (idn + 1) = Suc (unat idn)" "unat idn < unat last_id"
      using "1.prems"(1) suc by (auto simp: word_less_nat_alt)
    have e: "eix_word_mask last_id i idn ireg
        = eix_word_mask last_id (i + 1) (idn + 1) (ireg OR push_bit (unat i) 1)"
      using "1.prems" by (subst eix_word_mask.simps) simp
    show ?case
    proof (cases "idn + 1 < last_id \<and> i + 1 < riscv_xlen TYPE('a)")
      case True
      then show ?thesis
        using "1.IH" "1.prems" s e by simp
    next
      case False
      then have "eix_word_mask last_id (i + 1) (idn + 1) (ireg OR push_bit (unat i) 1)
          = (idn + 1, ireg OR push_bit (unat i) 1)"
        by (subst eix_word_mask.simps) auto
      then show ?thesis
        using s e by simp
    qed
  qed
  have "unat (riscv_xlen TYPE('a)) = LENGTH('a)"
    by (simp add: riscv_xlen_def unat_of_nat)
  then have nz: "riscv_xlen TYPE('a) \<noteq> 0"
    by (metis len_not_eq_0 unat_0)
  have "idn AND (riscv_xlen TYPE('a) - 1) \<le> riscv_xlen TYPE('a) - 1"
    by (rule word_and_le1)
  moreover have "riscv_xlen TYPE('a) - 1 < riscv_xlen TYPE('a)"
    using nz by (simp add: word_less_nat_alt unat_minus_one unat_gt_0)
  ultimately have "idn AND (riscv_xlen TYPE('a) - 1) < riscv_xlen TYPE('a)"
    by simp
  from mono [OF lt this, of 0] x
  have "unat idn < unat idn' \<and> unat idn' \<le> unat last_id"
    by (metis fst_conv)
  then show "((idn', last_id, pend, val), (idn, last_id, pend, val))
      \<in> measure (\<lambda>(idn, last_id, pend, val). unat last_id - unat idn)"
    by auto
qed

declare eix_update_loop.simps [simp del]

text \<open>
  \<^verbatim>\<open>imsic_local_eix_update\<close>. The sum \<open>base_id + num_id\<close> wraps as the C sum does.
\<close>

definition imsic_local_eix_update ::
  "'a::len word \<Rightarrow> 'a word \<Rightarrow> bool \<Rightarrow> bool \<Rightarrow> ('a word) csr_op list" where
  "imsic_local_eix_update base_id num_id pend val =
     eix_update_loop base_id (base_id + num_id) pend val"

subsection \<open>Initialisation of the local interrupt file\<close>

text \<open>
  \<^verbatim>\<open>imsic_local_irqchip_init\<close>. The argument is the trap cause that the probing read of
  \<^verbatim>\<open>CSR_MTOPI\<close> leaves behind: nonzero when the extension is absent.
\<close>

definition imsic_local_irqchip_init :: "'a::len word \<Rightarrow> ('a word) csr_op list" where
  "imsic_local_irqchip_init trap_cause =
     CSR_READ_ALLOWED CSR_MTOPI #
     (if trap_cause \<noteq> 0 then []
      else imsic_csr_write IMSIC_EITHRESHOLD IMSIC_ENABLE_EITHRESHOLD
         @ imsic_csr_write IMSIC_EIDELIVERY IMSIC_ENABLE_EIDELIVERY
         @ imsic_local_eix_update IMSIC_IPI_ID 1 False True)"

text \<open>
  \<^verbatim>\<open>imsic_warm_irqchip_init\<close> on the hart with index \<open>cur\<close> (the value of
  \<^verbatim>\<open>current_hartindex()\<close>): the status and the register operations issued.
\<close>

definition imsic_warm_irqchip_init ::
  "('a::len word) imsic_state \<Rightarrow> u32 \<Rightarrow> 'a word \<Rightarrow> status \<times> ('a word) csr_op list" where
  "imsic_warm_irqchip_init s cur trap_cause =
    (let imsic = imsic_get_data s cur in
     if imsic = 0 \<or> \<not> targets_mmode (imsic_heap s imsic) then (Inl SBI_EINVAL, [])
     else
       (Inr (),
        imsic_local_eix_update 1 (num_ids (imsic_heap s imsic)) False False
          @ imsic_local_eix_update IMSIC_IPI_ID 1 True False
          @ imsic_local_irqchip_init trap_cause))"

subsection \<open>Sending an inter-processor interrupt\<close>





subsection \<open>The external interrupt handler\<close>

text \<open>
  What the handler does with one claimed identity: it calls \<^verbatim>\<open>sbi_ipi_process\<close>, or it
  prints the identity, cast to \<^verbatim>\<open>u32\<close>, as unhandled.
\<close>

datatype irq_event = IPI_PROCESS | PRINTF_UNHANDLED u32

definition imsic_dispatch :: "'a::len word \<Rightarrow> irq_event" where
  "imsic_dispatch mirq =
     (let irq = drop_bit IMSIC_TOPEI_ID_SHIFT mirq
      in if irq = IMSIC_IPI_ID then IPI_PROCESS else PRINTF_UNHANDLED (ucast irq))"

text \<open>
  The claim loop of \<^verbatim>\<open>imsic_external_irqfn\<close>. The hardware is the sequence \<open>mtopei\<close> of
  the values that successive swaps of \<^verbatim>\<open>CSR_MTOPEI\<close> return. The loop need not end: it
  is a partial function, and \<open>None\<close> means that it runs forever. On exit it gives the
  events in order and the number of claims made.
\<close>

partial_function (option) imsic_claim_loop ::
  "(nat \<Rightarrow> 'a::len word) \<Rightarrow> nat \<Rightarrow> irq_event list \<Rightarrow> (irq_event list \<times> nat) option" where
  "imsic_claim_loop mtopei n evs =
     (let mirq = mtopei n
      in if mirq \<noteq> 0 then imsic_claim_loop mtopei (Suc n) (evs @ [imsic_dispatch mirq])
         else Some (evs, Suc n))"

definition imsic_external_irqfn ::
  "(nat \<Rightarrow> 'a::len word) \<Rightarrow> (status \<times> irq_event list \<times> nat) option" where
  "imsic_external_irqfn mtopei =
     (case imsic_claim_loop mtopei 0 [] of
        None \<Rightarrow> None
      | Some (evs, n) \<Rightarrow> Some (Inr (), evs, n))"

subsection \<open>Masks and the identities they address\<close>

text \<open>
  The select-then-access pairs of a list of register operations, as pairs of the register
  selected and the mask set or cleared in it; reading stops at the first operation that
  is not part of such a pair.
\<close>

fun csr_accesses :: "'w csr_op list \<Rightarrow> ('w \<times> 'w) list" where
  "csr_accesses (CSR_WRITE CSR_MISELECT c # CSR_SET CSR_MIREG v # ops) = (c, v) # csr_accesses ops"
| "csr_accesses (CSR_WRITE CSR_MISELECT c # CSR_CLEAR CSR_MIREG v # ops) = (c, v) # csr_accesses ops"
| "csr_accesses ops = []"

text \<open>
  The last registers of the two arrays (lines 40 and 46) and the width of an enable
  register (line 48).
\<close>

definition IMSIC_EIP63 :: "'a::len word" where
  "IMSIC_EIP63 = 0xbf"

definition IMSIC_EIE63 :: "'a::len word" where
  "IMSIC_EIE63 = 0xff"

definition IMSIC_EIEx_BITS :: nat where
  "IMSIC_EIEx_BITS = 32"

text \<open>
  The bits that a mask addresses, by the register selected alone: each bit is given as
  the array it lies in (\<open>True\<close> for the pending array, \<open>False\<close> for the enable array)
  and the identity it belongs to. The pending array is the registers \<^verbatim>\<open>IMSIC_EIP0\<close> to
  \<^verbatim>\<open>IMSIC_EIP63\<close>, the enable array the registers \<^verbatim>\<open>IMSIC_EIE0\<close> to \<^verbatim>\<open>IMSIC_EIE63\<close>.
  Register numbers count 32 identities each, and a native word starts at a register
  number that is a multiple of \<open>xlen / 32\<close>: this is the addressing of lines 212 to 214,
  where the word of identity \<open>id\<close> is register \<open>(id / xlen) * (xlen / 32)\<close> of its array
  and the bit is \<open>id mod xlen\<close>. A register outside both arrays holds no pending or
  enable bit.
\<close>

definition eix_mask_bits :: "('a::len word \<times> 'a word) \<Rightarrow> (bool \<times> nat) set" where
  "eix_mask_bits acc =
     (if IMSIC_EIP0 \<le> fst acc \<and> fst acc \<le> IMSIC_EIP63
         \<and> unat (fst acc - IMSIC_EIP0) mod (LENGTH('a) div IMSIC_EIPx_BITS) = 0
      then (\<lambda>k. (True, unat (fst acc - IMSIC_EIP0) * IMSIC_EIPx_BITS + k))
             ` {k \<in> {0..<LENGTH('a)}. bit (snd acc) k}
      else if IMSIC_EIE0 \<le> fst acc \<and> fst acc \<le> IMSIC_EIE63
         \<and> unat (fst acc - IMSIC_EIE0) mod (LENGTH('a) div IMSIC_EIEx_BITS) = 0
      then (\<lambda>k. (False, unat (fst acc - IMSIC_EIE0) * IMSIC_EIEx_BITS + k))
             ` {k \<in> {0..<LENGTH('a)}. bit (snd acc) k}
      else {})"

section \<open>Verified properties\<close>

subsection \<open>Word arithmetic\<close>

lemma unat_and_low_mask:
  "unat ((n::'a::len word) AND (push_bit k 1 - 1)) = unat n mod 2 ^ k"
proof -
  have m: "(push_bit k 1 - 1 :: 'a word) = mask k" by (simp add: mask_eq_exp_minus_1 push_bit_eq_mult)
  have "unat (n AND mask k) = unat (take_bit k n)" by (simp only: take_bit_eq_mask)
  also have "\<dots> = take_bit k (unat n)" by (rule unsigned_take_bit_eq)
  also have "\<dots> = unat n mod 2 ^ k" by (simp add: take_bit_eq_mod)
  finally show ?thesis by (simp only: m)
qed

subsection \<open>Topology validation\<close>

lemma data_check_bad_num_ids:
  fixes imsic :: "('a::len word) imsic_data"
  assumes len: "LENGTH('a) = 32 \<or> LENGTH('a) = 64"
    and bad: "unat (num_ids imsic) mod 64 \<noteq> 63 \<or> unat (num_ids imsic) < 63 \<or> 2047 < unat (num_ids imsic)"
  shows "imsic_data_check (Some imsic) = Some (Inl SBI_EINVAL)"
proof -
  have a: "unat (63 :: 'a word) = 63" "unat (2047 :: 'a word) = 2047"
    using len by (auto simp: unat_eq_nat_uint)
  have "num_ids imsic AND 63 \<noteq> 63" if "unat (num_ids imsic) mod 64 \<noteq> 63"
    using that unat_and_low_mask[of "num_ids imsic" 6] a by auto
  then show ?thesis
    using bad a
    by (auto simp: imsic_data_check_def IMSIC_MIN_ID_def IMSIC_MAX_ID_def word_less_nat_alt)
qed

lemma data_check_canonical:
  fixes imsic :: "('a::len word) imsic_data"
  assumes len: "LENGTH('a) = 32 \<or> LENGTH('a) = 64"
    and f: "guest_index_bits imsic = 0" "hart_index_bits imsic = 0" "group_index_bits imsic = 0"
      "group_index_shift imsic = 24" "num_ids imsic = 63"
    and w: "regs imsic = r0 # rest" "size_bytes r0 \<noteq> 0" "unat (size_bytes r0) mod 4096 = 0"
      "\<forall>r \<in> set rest. size_bytes r = 0"
  shows "imsic_data_check (Some imsic) = Some (Inr ())"
proof -
  have bits: "imsic_index_bits_ok imsic"
    using len f by (auto simp: imsic_index_bits_ok_def BITS_PER_LONG_def IMSIC_MMIO_PAGE_SHIFT_def)
  have ids: "\<not> (num_ids imsic < IMSIC_MIN_ID \<or> IMSIC_MAX_ID < num_ids imsic)"
    "num_ids imsic AND IMSIC_MIN_ID = IMSIC_MIN_ID"
    using len f by (auto simp: IMSIC_MIN_ID_def IMSIC_MAX_ID_def word_less_nat_alt unat_numeral)
  have ma: "imsic_masked_addr imsic a = Some (a AND NOT 4095)" for a
    using len f by (auto simp: imsic_masked_addr_def shl_ul_def IMSIC_MMIO_PAGE_SHIFT_def)
  have "unat (size_bytes r0 AND (push_bit 12 1 - 1)) = 0"
    using w(3) by (simp only: unat_and_low_mask) simp
  then have sz: "size_bytes r0 AND 4095 = 0"
    by (simp add: unat_eq_0)
  have tl: "imsic_regs_check imsic b rest = Some (Inr ())" for b
    using w(4) by (cases rest) auto
  have "imsic_regs_check imsic (addr r0 AND NOT 4095) (r0 # rest) = Some (Inr ())"
    using len f w(2) sz ma tl
    by (simp add: shl_ul_def IMSIC_MMIO_PAGE_SZ_def IMSIC_MMIO_PAGE_SHIFT_def)
  then show ?thesis
    using bits ids w(1,2) ma by (simp add: imsic_data_check_def)
qed


text \<open>
  Claim C1. For either word width: an instance whose \<open>num_ids\<close> is not congruent to 63
  modulo 64, or is below 63 or above 2047, makes \<^verbatim>\<open>imsic_data_check\<close> return
  \<^verbatim>\<open>SBI_EINVAL\<close> (the only error code the validator has); and the canonical instance
  with no guest, hart and group bits, group shift 24, 63 identities and one window (the
  first array entry, of nonzero size that is a multiple of the page size, every later
  entry of size zero) makes it return 0.
\<close>

theorem imsic_data_check_validator:
  fixes bad canon :: "('a::len word) imsic_data"
  assumes len: "LENGTH('a) = 32 \<or> LENGTH('a) = 64"
  shows "(unat (num_ids bad) mod 64 \<noteq> 63 \<or> unat (num_ids bad) < 63 \<or> 2047 < unat (num_ids bad)
            \<longrightarrow> imsic_data_check (Some bad) = Some (Inl SBI_EINVAL))
       \<and> (guest_index_bits canon = 0 \<and> hart_index_bits canon = 0 \<and> group_index_bits canon = 0
            \<and> group_index_shift canon = 24 \<and> num_ids canon = 63
            \<and> regs canon = r0 # rest \<and> size_bytes r0 \<noteq> 0
            \<and> unat (size_bytes r0) mod 2 ^ IMSIC_MMIO_PAGE_SHIFT = 0
            \<and> (\<forall>r \<in> set rest. size_bytes r = 0)
            \<longrightarrow> imsic_data_check (Some canon) = Some (Inr ()))"
  using data_check_bad_num_ids [OF len, of bad] data_check_canonical [OF len, of canon r0 rest]
  by (simp add: IMSIC_MMIO_PAGE_SHIFT_def)

text \<open>The theorem at a 64-bit instance with 131 identities and at the canonical instance.\<close>

theorem imsic_data_check_validator_witness:
  "imsic_data_check (Some \<lparr>targets_mmode = True, guest_index_bits = 0, hart_index_bits = 0,
       group_index_bits = 0, group_index_shift = 24, num_ids = (127 + 4 :: 64 word),
       regs = [\<lparr>addr = 0x28000000, size_bytes = 0x4000\<rparr>, \<lparr>addr = 0, size_bytes = 0\<rparr>]\<rparr>)
     = Some (Inl SBI_EINVAL)
   \<and> imsic_data_check (Some \<lparr>targets_mmode = True, guest_index_bits = 0, hart_index_bits = 0,
       group_index_bits = 0, group_index_shift = 24, num_ids = (63 :: 64 word),
       regs = [\<lparr>addr = 0x28000000, size_bytes = 0x4000\<rparr>, \<lparr>addr = 0, size_bytes = 0\<rparr>]\<rparr>)
     = Some (Inr ())"
  using imsic_data_check_validator [where 'a = 64,
      of "\<lparr>targets_mmode = True, guest_index_bits = 0, hart_index_bits = 0,
       group_index_bits = 0, group_index_shift = 24, num_ids = (127 + 4 :: 64 word),
       regs = [\<lparr>addr = 0x28000000, size_bytes = 0x4000\<rparr>, \<lparr>addr = 0, size_bytes = 0\<rparr>]\<rparr>"
      "\<lparr>targets_mmode = True, guest_index_bits = 0, hart_index_bits = 0,
       group_index_bits = 0, group_index_shift = 24, num_ids = (63 :: 64 word),
       regs = [\<lparr>addr = 0x28000000, size_bytes = 0x4000\<rparr>, \<lparr>addr = 0, size_bytes = 0\<rparr>]\<rparr>"
      "\<lparr>addr = 0x28000000, size_bytes = 0x4000\<rparr>" "[\<lparr>addr = 0, size_bytes = 0\<rparr>]"]
  by (simp add: IMSIC_MMIO_PAGE_SHIFT_def)

text \<open>
  What the checks of lines 289 to 309 establish. The first four relations of the data
  model are tested exactly. The fifth, \<open>group_index_bits + group_index_shift \<le> xlen\<close>,
  is tested exactly as long as the sum does not exceed \<open>2 ^ 32\<close>. So whenever the function
  returns 0 all five relations hold, and an instance that violates one of them is
  rejected unless that sum wraps.
\<close>

lemma index_bits_ok_relations:
  fixes imsic :: "('a::len word) imsic_data"
  assumes len: "LENGTH('a) = 32 \<or> LENGTH('a) = 64"
    and ok: "imsic_index_bits_ok imsic"
  shows "unat (guest_index_bits imsic) \<le> LENGTH('a) - 12
       \<and> unat (hart_index_bits imsic) \<le> LENGTH('a) - 12 - unat (guest_index_bits imsic)
       \<and> unat (group_index_bits imsic)
            \<le> LENGTH('a) - 12 - unat (guest_index_bits imsic) - unat (hart_index_bits imsic)
       \<and> 12 + unat (guest_index_bits imsic) + unat (hart_index_bits imsic)
            \<le> unat (group_index_shift imsic)
       \<and> (unat (group_index_bits imsic) + unat (group_index_shift imsic) \<le> 2 ^ 32
            \<longrightarrow> unat (group_index_bits imsic) + unat (group_index_shift imsic) \<le> LENGTH('a))"
proof -
  let ?W = "BITS_PER_LONG TYPE('a)"
  let ?G = "guest_index_bits imsic" and ?H = "hart_index_bits imsic"
  let ?P = "group_index_bits imsic" and ?S = "group_index_shift imsic"
  have uW: "unat ?W = LENGTH('a)"
    using len by (auto simp: BITS_PER_LONG_def unat_of_nat)
  have L: "12 \<le> LENGTH('a)" "LENGTH('a) \<le> 64"
    using len by auto
  have c: "\<not> ?W - 12 < ?G" "\<not> ?W - 12 - ?G < ?H" "\<not> ?W - 12 - ?G - ?H < ?P"
    "\<not> ?S < 12 + ?G + ?H" "\<not> ?W \<le> ?P + ?S - 1"
    using ok unfolding imsic_index_bits_ok_def IMSIC_MMIO_PAGE_SHIFT_def
    by (simp_all split: if_splits)
  have "(12 :: u32) \<le> ?W"
    using uW L by (simp add: word_le_nat_alt)
  then have u1: "unat (?W - 12) = LENGTH('a) - 12"
    using uW by (simp add: unat_sub)
  have g: "unat ?G \<le> LENGTH('a) - 12"
    using c(1) u1 by (simp add: word_less_nat_alt)
  have "?G \<le> ?W - 12"
    using c(1) by simp
  then have u2: "unat (?W - 12 - ?G) = LENGTH('a) - 12 - unat ?G"
    using u1 by (simp add: unat_sub)
  have h: "unat ?H \<le> LENGTH('a) - 12 - unat ?G"
    using c(2) u2 by (simp add: word_less_nat_alt)
  have "?H \<le> ?W - 12 - ?G"
    using c(2) by simp
  then have u3: "unat (?W - 12 - ?G - ?H) = LENGTH('a) - 12 - unat ?G - unat ?H"
    using u2 by (simp add: unat_sub)
  have p: "unat ?P \<le> LENGTH('a) - 12 - unat ?G - unat ?H"
    using c(3) u3 by (simp add: word_less_nat_alt)
  have "unat (12 :: u32) + unat ?G < 2 ^ LENGTH(32)"
    using g L by simp
  then have u4a: "unat (12 + ?G) = 12 + unat ?G"
    by (simp add: unat_add_lem [THEN iffD1])
  have "unat (12 + ?G) + unat ?H < 2 ^ LENGTH(32)"
    using u4a g h L by simp
  then have u4: "unat (12 + ?G + ?H) = 12 + unat ?G + unat ?H"
    using u4a by (simp add: unat_add_lem [THEN iffD1])
  have s: "12 + unat ?G + unat ?H \<le> unat ?S"
    using c(4) u4 by (simp add: word_less_nat_alt)
  have f: "unat ?P + unat ?S \<le> LENGTH('a)"
    if sh: "unat ?P + unat ?S \<le> 2 ^ 32"
  proof -
    have "unat ?P + unat ?S \<noteq> 2 ^ 32"
    proof
      assume "unat ?P + unat ?S = 2 ^ 32"
      then have "unat (?P + ?S) = 0"
        by (simp add: unat_word_ariths(1))
      then have "?P + ?S = 0"
        by (simp add: unat_eq_0)
      then have "?P + ?S - 1 = - 1"
        by simp
      then show False
        using c(5) by simp
    qed
    then have "unat ?P + unat ?S < 2 ^ LENGTH(32)"
      using sh by simp
    then have u5a: "unat (?P + ?S) = unat ?P + unat ?S"
      by (simp add: unat_add_lem [THEN iffD1])
    then have "1 \<le> ?P + ?S"
      using s by (simp add: word_le_nat_alt)
    then have u5: "unat (?P + ?S - 1) = unat ?P + unat ?S - 1"
      using u5a by (simp add: unat_sub)
    have "unat ?P + unat ?S - 1 < LENGTH('a)"
      using c(5) u5 uW by (simp add: word_le_nat_alt)
    then show ?thesis
      by arith
  qed
  show ?thesis
    using g h p s f by blast
qed

lemma data_check_success_relations:
  fixes imsic :: "('a::len word) imsic_data"
  assumes len: "LENGTH('a) = 32 \<or> LENGTH('a) = 64"
    and ok: "imsic_data_check (Some imsic) = Some (Inr ())"
  shows "unat (guest_index_bits imsic) \<le> LENGTH('a) - 12
       \<and> unat (hart_index_bits imsic) \<le> LENGTH('a) - 12 - unat (guest_index_bits imsic)
       \<and> unat (group_index_bits imsic)
            \<le> LENGTH('a) - 12 - unat (guest_index_bits imsic) - unat (hart_index_bits imsic)
       \<and> 12 + unat (guest_index_bits imsic) + unat (hart_index_bits imsic)
            \<le> unat (group_index_shift imsic)
       \<and> unat (group_index_bits imsic) + unat (group_index_shift imsic) \<le> LENGTH('a)"
proof -
  have b: "imsic_index_bits_ok imsic"
    using ok by (auto simp: imsic_data_check_def split: if_splits)
  note r = index_bits_ok_relations [OF len b]
  have "\<exists>x a. imsic_masked_addr imsic x = Some a"
    using ok by (auto simp: imsic_data_check_def split: if_splits list.splits option.splits)
  then have "unat (group_index_shift imsic) < LENGTH('a)"
    by (auto simp: imsic_masked_addr_def shl_ul_def split: option.splits if_splits)
  moreover have "unat (group_index_bits imsic)
      \<le> LENGTH('a) - 12 - unat (guest_index_bits imsic) - unat (hart_index_bits imsic)"
    using r by blast
  moreover have "LENGTH('a) \<le> 64"
    using len by auto
  ultimately have "unat (group_index_bits imsic) + unat (group_index_shift imsic) \<le> 128"
    by linarith
  then have "unat (group_index_bits imsic) + unat (group_index_shift imsic) \<le> 2 ^ 32"
    by simp
  then show ?thesis
    using r by blast
qed

lemma data_check_rejects_violation:
  fixes imsic :: "('a::len word) imsic_data"
  assumes len: "LENGTH('a) = 32 \<or> LENGTH('a) = 64"
    and nowrap: "unat (group_index_bits imsic) + unat (group_index_shift imsic) \<le> 2 ^ 32"
    and bad: "\<not> (unat (guest_index_bits imsic) \<le> LENGTH('a) - 12
       \<and> unat (hart_index_bits imsic) \<le> LENGTH('a) - 12 - unat (guest_index_bits imsic)
       \<and> unat (group_index_bits imsic)
            \<le> LENGTH('a) - 12 - unat (guest_index_bits imsic) - unat (hart_index_bits imsic)
       \<and> 12 + unat (guest_index_bits imsic) + unat (hart_index_bits imsic)
            \<le> unat (group_index_shift imsic)
       \<and> unat (group_index_bits imsic) + unat (group_index_shift imsic) \<le> LENGTH('a))"
  shows "imsic_data_check (Some imsic) = Some (Inl SBI_EINVAL)"
proof -
  have "\<not> imsic_index_bits_ok imsic"
    using index_bits_ok_relations [OF len, of imsic] nowrap bad by blast
  then show ?thesis
    by (simp add: imsic_data_check_def)
qed

text \<open>
  Claim C5, at an input where the code and the claim part. The sum
  \<open>group_index_bits + group_index_shift - 1\<close> of line 307 is computed in 32 bits. With
  2 group bits and a group shift of \<open>2 ^ 32 - 1\<close> it wraps to 0, so none of the checks of
  lines 289 to 309 rejects the instance, although the group field ends far above bit 64;
  the function does not return \<^verbatim>\<open>SBI_EINVAL\<close> and goes on to the shift of line 327,
  whose count is \<open>2 ^ 32 - 1\<close>.
\<close>

theorem imsic_data_check_group_wrap:
  "imsic_index_bits_ok \<lparr>targets_mmode = True, guest_index_bits = 0, hart_index_bits = 0,
       group_index_bits = 2, group_index_shift = 0xFFFFFFFF, num_ids = (63 :: 64 word),
       regs = [\<lparr>addr = 0x28000000, size_bytes = 0x1000\<rparr>, \<lparr>addr = 0, size_bytes = 0\<rparr>]\<rparr>
   \<and> imsic_data_check (Some \<lparr>targets_mmode = True, guest_index_bits = 0, hart_index_bits = 0,
       group_index_bits = 2, group_index_shift = 0xFFFFFFFF, num_ids = (63 :: 64 word),
       regs = [\<lparr>addr = 0x28000000, size_bytes = 0x1000\<rparr>, \<lparr>addr = 0, size_bytes = 0\<rparr>]\<rparr>)
     \<noteq> Some (Inl SBI_EINVAL)
   \<and> unat (2 :: u32) + unat (0xFFFFFFFF :: u32) > 64"
  by (simp add: imsic_index_bits_ok_def imsic_data_check_def BITS_PER_LONG_def
      IMSIC_MMIO_PAGE_SHIFT_def IMSIC_MIN_ID_def IMSIC_MAX_ID_def imsic_masked_addr_def shl_ul_def)

subsection \<open>The hart binding registry\<close>

lemma scast_ucast32:
  assumes "LENGTH('a::len) = 32 \<or> LENGTH('a) = 64"
  shows "(ucast (scast (f :: u32) :: 'a word) :: u32) = f"
proof (rule bit_word_eqI)
  fix n assume "n < LENGTH(32)"
  then show "bit (ucast (scast f :: 'a word) :: u32) n = bit f n"
    using assms by (cases "n = 31") (auto simp: bit_ucast_iff bit_signed_iff min_def)
qed

text \<open>
  Claim C7, amended. \<^verbatim>\<open>imsic_map_hartid_to_data\<close> returns \<^verbatim>\<open>SBI_EINVAL\<close> exactly when
  the controller pointer is \<^verbatim>\<open>NULL\<close> or the controller does not target M-mode, and 0
  otherwise. With a valid controller and no scratch area for the hart it changes nothing.
  With a scratch area, and provided that the two slot offsets differ (as they do once cold
  initialisation has allocated them), the pointer slot then holds the controller and the
  file slot the file index, and \<^verbatim>\<open>imsic_get_data\<close> and \<^verbatim>\<open>imsic_get_target_file\<close> return
  them for a hart index with that scratch area.
\<close>

theorem imsic_map_hartid_to_data_spec:
  fixes s :: "('a::len word) imsic_state"
  assumes len: "LENGTH('a) = 32 \<or> LENGTH('a) = 64"
  shows "(fst (imsic_map_hartid_to_data s hartid imsic file_index) = Inl SBI_EINVAL
          \<longleftrightarrow> imsic = 0 \<or> \<not> targets_mmode (imsic_heap s imsic))
   \<and> (fst (imsic_map_hartid_to_data s hartid imsic file_index) = Inl SBI_EINVAL
        \<or> fst (imsic_map_hartid_to_data s hartid imsic file_index) = Inr ())
   \<and> (imsic \<noteq> 0 \<and> targets_mmode (imsic_heap s imsic) \<and> hartid_to_scratch s hartid = None
        \<longrightarrow> imsic_map_hartid_to_data s hartid imsic file_index = (Inr (), s))
   \<and> (imsic \<noteq> 0 \<and> targets_mmode (imsic_heap s imsic) \<and> hartid_to_scratch s hartid = Some scratch
        \<and> imsic_ptr_offset s \<noteq> imsic_file_offset s
        \<longrightarrow> fst (imsic_map_hartid_to_data s hartid imsic file_index) = Inr ()
          \<and> imsic_get_hart_data_ptr (snd (imsic_map_hartid_to_data s hartid imsic file_index)) scratch = imsic
          \<and> imsic_get_hart_file (snd (imsic_map_hartid_to_data s hartid imsic file_index)) scratch = scast file_index
          \<and> (hartindex_to_scratch s hartindex = Some scratch
                \<and> imsic_ptr_offset s \<noteq> 0 \<and> imsic_file_offset s \<noteq> 0
              \<longrightarrow> imsic_get_data (snd (imsic_map_hartid_to_data s hartid imsic file_index)) hartindex = imsic
                \<and> imsic_get_target_file (snd (imsic_map_hartid_to_data s hartid imsic file_index)) hartindex
                    = Inr file_index))"
  using scast_ucast32 [OF len, of file_index]
  by (auto simp: imsic_map_hartid_to_data_def imsic_set_hart_file_def imsic_set_hart_data_ptr_def
      imsic_get_hart_data_ptr_def imsic_get_hart_file_def sbi_scratch_read_def
      imsic_get_data_def imsic_get_target_file_def
      sbi_scratch_write_def split: option.splits)

text \<open>
  The theorem at a state with allocated slots: a \<^verbatim>\<open>NULL\<close> controller, a controller that
  does not target M-mode, a hart without scratch area, and a recorded binding.
\<close>

theorem imsic_map_hartid_to_data_spec_witness:
  "let s = \<lparr>imsic_ptr_offset = (0x100 :: 64 word), imsic_file_offset = 0x108,
        hartid_to_scratch = (\<lambda>h. if h = 0 then Some 0 else None),
        hartindex_to_scratch = (\<lambda>h. if h = 0 then Some 0 else None),
        scratch_mem = (\<lambda>sc off. 0),
        imsic_heap = (\<lambda>p. \<lparr>targets_mmode = (p = 0x80001000), guest_index_bits = 0,
          hart_index_bits = 0, group_index_bits = 0, group_index_shift = 24, num_ids = 63,
          regs = [\<lparr>addr = 0x28000000, size_bytes = 0x4000\<rparr>, \<lparr>addr = 0, size_bytes = 0\<rparr>]\<rparr>)\<rparr>
   in fst (imsic_map_hartid_to_data s 0 0 2) = Inl SBI_EINVAL
    \<and> fst (imsic_map_hartid_to_data s 0 0x80002000 2) = Inl SBI_EINVAL
    \<and> imsic_map_hartid_to_data s 7 0x80001000 2 = (Inr (), s)
    \<and> fst (imsic_map_hartid_to_data s 0 0x80001000 2) = Inr ()
    \<and> imsic_get_data (snd (imsic_map_hartid_to_data s 0 0x80001000 2)) 0 = 0x80001000
    \<and> imsic_get_target_file (snd (imsic_map_hartid_to_data s 0 0x80001000 2)) 0 = Inr 2"
  using imsic_map_hartid_to_data_spec [where 'a = 64 and hartid = 0 and imsic = "0x80001000"
      and file_index = 2 and scratch = 0 and hartindex = 0]
  by (simp add: Let_def imsic_map_hartid_to_data_def imsic_set_hart_file_def
      imsic_set_hart_data_ptr_def imsic_get_hart_data_ptr_def imsic_get_hart_file_def
      sbi_scratch_read_def imsic_get_data_def imsic_get_target_file_def sbi_scratch_write_def)

text \<open>
  Claim C7 as stated fails before the slots are allocated: both offsets are 0, the store
  of the file index overwrites the store of the controller pointer, and both lookups
  report that nothing is bound.
\<close>

theorem imsic_map_hartid_to_data_unallocated:
  "let s = \<lparr>imsic_ptr_offset = (0 :: 64 word), imsic_file_offset = 0,
        hartid_to_scratch = (\<lambda>h. if h = 0 then Some 0 else None),
        hartindex_to_scratch = (\<lambda>h. if h = 0 then Some 0 else None),
        scratch_mem = (\<lambda>sc off. 0),
        imsic_heap = (\<lambda>p. \<lparr>targets_mmode = True, guest_index_bits = 0,
          hart_index_bits = 0, group_index_bits = 0, group_index_shift = 24, num_ids = 63,
          regs = [\<lparr>addr = 0x28000000, size_bytes = 0x4000\<rparr>, \<lparr>addr = 0, size_bytes = 0\<rparr>]\<rparr>)\<rparr>
   in fst (imsic_map_hartid_to_data s 0 0x80001000 2) = Inr ()
    \<and> imsic_get_hart_data_ptr (snd (imsic_map_hartid_to_data s 0 0x80001000 2)) 0 = 2
    \<and> imsic_get_data (snd (imsic_map_hartid_to_data s 0 0x80001000 2)) 0 = 0
    \<and> imsic_get_target_file (snd (imsic_map_hartid_to_data s 0 0x80001000 2)) 0 = Inl SBI_ENOENT"
  by (simp add: Let_def imsic_map_hartid_to_data_def imsic_set_hart_file_def
      imsic_set_hart_data_ptr_def imsic_get_hart_data_ptr_def imsic_get_hart_file_def
      sbi_scratch_read_def imsic_get_data_def imsic_get_target_file_def sbi_scratch_write_def)

lemma bind_idem:
  "imsic_map_hartid_to_data (snd (imsic_map_hartid_to_data s h p f)) h p f
     = imsic_map_hartid_to_data s h p f"
  by (auto simp: imsic_map_hartid_to_data_def imsic_set_hart_file_def imsic_set_hart_data_ptr_def
      sbi_scratch_write_def split: option.splits)

text \<open>
  Claim C8. Binding twice with the same arguments gives the same status and the same
  state as binding once; so \<^verbatim>\<open>imsic_get_data\<close> and \<^verbatim>\<open>imsic_get_target_file\<close> return the
  same results for every hart index.
\<close>

theorem imsic_map_hartid_to_data_idempotent:
  "imsic_map_hartid_to_data (snd (imsic_map_hartid_to_data s hartid imsic file_index)) hartid imsic file_index
     = imsic_map_hartid_to_data s hartid imsic file_index
   \<and> (\<forall>hartindex.
        imsic_get_data (snd (imsic_map_hartid_to_data
            (snd (imsic_map_hartid_to_data s hartid imsic file_index)) hartid imsic file_index)) hartindex
          = imsic_get_data (snd (imsic_map_hartid_to_data s hartid imsic file_index)) hartindex
      \<and> imsic_get_target_file (snd (imsic_map_hartid_to_data
            (snd (imsic_map_hartid_to_data s hartid imsic file_index)) hartid imsic file_index)) hartindex
          = imsic_get_target_file (snd (imsic_map_hartid_to_data s hartid imsic file_index)) hartindex)"
  by (simp add: bind_idem)

theorem imsic_map_hartid_to_data_idempotent_witness:
  "let s = \<lparr>imsic_ptr_offset = (0x100 :: 64 word), imsic_file_offset = 0x108,
        hartid_to_scratch = (\<lambda>h. if h = 0 then Some 0 else None),
        hartindex_to_scratch = (\<lambda>h. if h = 0 then Some 0 else None),
        scratch_mem = (\<lambda>sc off. 0),
        imsic_heap = (\<lambda>p. \<lparr>targets_mmode = True, guest_index_bits = 0,
          hart_index_bits = 0, group_index_bits = 0, group_index_shift = 24, num_ids = 63,
          regs = [\<lparr>addr = 0x28000000, size_bytes = 0x4000\<rparr>, \<lparr>addr = 0, size_bytes = 0\<rparr>]\<rparr>)\<rparr>
   in imsic_map_hartid_to_data (snd (imsic_map_hartid_to_data s 0 0x80001000 2)) 0 0x80001000 2
        = imsic_map_hartid_to_data s 0 0x80001000 2
    \<and> imsic_get_data (snd (imsic_map_hartid_to_data
          (snd (imsic_map_hartid_to_data s 0 0x80001000 2)) 0 0x80001000 2)) 0 = 0x80001000
    \<and> imsic_get_target_file (snd (imsic_map_hartid_to_data
          (snd (imsic_map_hartid_to_data s 0 0x80001000 2)) 0 0x80001000 2)) 0 = Inr 2"
  using imsic_map_hartid_to_data_idempotent [where 'a = 64 and hartid = 0 and imsic = "0x80001000"
      and file_index = 2]
  by (simp add: Let_def imsic_map_hartid_to_data_def imsic_set_hart_file_def
      imsic_set_hart_data_ptr_def imsic_get_hart_data_ptr_def imsic_get_hart_file_def
      sbi_scratch_read_def imsic_get_data_def imsic_get_target_file_def sbi_scratch_write_def)

subsection \<open>Warm initialisation\<close>

text \<open>
  Claim C3. When the hart has no recorded binding (the pointer slot was never allocated,
  the hart has no scratch area, or its pointer slot holds \<^verbatim>\<open>NULL\<close>), or when the bound
  controller does not target M-mode, \<^verbatim>\<open>imsic_warm_irqchip_init\<close> returns \<^verbatim>\<open>SBI_EINVAL\<close>
  (the one invalid-input code of the driver) and issues no register operation at all.
\<close>

theorem imsic_warm_irqchip_init_unbound:
  fixes s :: "('a::len word) imsic_state"
  shows "(imsic_ptr_offset s = 0 \<or> hartindex_to_scratch s cur = None
          \<or> (\<exists>scratch. hartindex_to_scratch s cur = Some scratch
                \<and> imsic_get_hart_data_ptr s scratch = 0)
          \<longrightarrow> imsic_warm_irqchip_init s cur trap_cause = (Inl SBI_EINVAL, []))
       \<and> (\<not> targets_mmode (imsic_heap s (imsic_get_data s cur))
          \<longrightarrow> imsic_warm_irqchip_init s cur trap_cause = (Inl SBI_EINVAL, []))"
  by (auto simp: imsic_warm_irqchip_init_def imsic_get_data_def Let_def split: option.splits)

text \<open>
  The theorem on hart 0 (pointer slot \<^verbatim>\<open>NULL\<close>), hart 1 (bound to a controller that does
  not target M-mode) and hart 2 (no scratch area).
\<close>

theorem imsic_warm_irqchip_init_unbound_witness:
  "let s = \<lparr>imsic_ptr_offset = (0x100 :: 64 word), imsic_file_offset = 0x108,
        hartid_to_scratch = (\<lambda>h. if h \<le> 1 then Some (unat h) else None),
        hartindex_to_scratch = (\<lambda>h. if h \<le> 1 then Some (unat h) else None),
        scratch_mem = (\<lambda>sc off. if sc = 1 \<and> off = 0x100 then 0x80002000 else 0),
        imsic_heap = (\<lambda>p. \<lparr>targets_mmode = (p = 0x80001000), guest_index_bits = 0,
          hart_index_bits = 0, group_index_bits = 0, group_index_shift = 24, num_ids = 63,
          regs = [\<lparr>addr = 0x28000000, size_bytes = 0x4000\<rparr>, \<lparr>addr = 0, size_bytes = 0\<rparr>]\<rparr>)\<rparr>
   in imsic_warm_irqchip_init s 0 0 = (Inl SBI_EINVAL, [])
    \<and> imsic_warm_irqchip_init s 1 0 = (Inl SBI_EINVAL, [])
    \<and> imsic_warm_irqchip_init s 2 0 = (Inl SBI_EINVAL, [])"
  using imsic_warm_irqchip_init_unbound [where 'a = 64 and cur = 0 and trap_cause = 0]
  by (simp add: Let_def imsic_warm_irqchip_init_def imsic_get_data_def
      imsic_get_hart_data_ptr_def sbi_scratch_read_def)

subsection \<open>The claim loop\<close>

lemma claim_loop_run:
  fixes mtopei :: "nat \<Rightarrow> 'a::len word"
  assumes z: "mtopei n = 0" and nz: "\<forall>k<n. mtopei k \<noteq> 0"
  shows "k \<le> n \<Longrightarrow> imsic_claim_loop mtopei k evs
      = Some (evs @ map (\<lambda>j. imsic_dispatch (mtopei j)) [k..<n], Suc n)"
proof (induction "n - k" arbitrary: k evs)
  case 0
  then have "k = n" by simp
  then show ?case
    using z by (subst imsic_claim_loop.simps) simp
next
  case (Suc d)
  then have lt: "k < n" by simp
  then have "mtopei k \<noteq> 0" using nz by simp
  then have "imsic_claim_loop mtopei k evs
      = imsic_claim_loop mtopei (Suc k) (evs @ [imsic_dispatch (mtopei k)])"
    by (subst imsic_claim_loop.simps) (simp add: Let_def)
  also have "\<dots> = Some ((evs @ [imsic_dispatch (mtopei k)])
      @ map (\<lambda>j. imsic_dispatch (mtopei j)) [Suc k..<n], Suc n)"
    using Suc.hyps(1) [of "Suc k"] Suc.hyps(2) lt by simp
  finally show ?case
    using lt by (simp add: upt_conv_Cons)
qed

lemma dispatch_ipi:
  assumes "LENGTH('a::len) = 32 \<or> LENGTH('a) = 64"
  shows "imsic_dispatch (0x10001 :: 'a word) = IPI_PROCESS" "(0x10001 :: 'a word) \<noteq> 0"
proof -
  have u: "unat (0x10001 :: 'a word) = 0x10001"
    using assms by (auto simp: unat_numeral)
  then show "(0x10001 :: 'a word) \<noteq> 0"
    by (metis unat_0 zero_neq_numeral)
  have "unat (drop_bit 16 (0x10001 :: 'a word)) = 1"
    by (simp only: unat_drop_bit_eq u) (simp add: drop_bit_eq_div)
  then have "drop_bit 16 (0x10001 :: 'a word) = 1"
    by (metis unat_1 word_unat_eq_iff)
  then show "imsic_dispatch (0x10001 :: 'a word) = IPI_PROCESS"
    by (simp add: imsic_dispatch_def IMSIC_TOPEI_ID_SHIFT_def IMSIC_IPI_ID_def)
qed

text \<open>
  Claim C6. When the claim register yields \<open>0x10001\<close> and then 0, the handler calls the
  IPI collaborator once, does nothing else and returns 0 after two claims. For every
  sequence of claimed values with a first zero at position \<open>n\<close>, the handler returns 0
  after \<open>n + 1\<close> claims, having dispatched the \<open>n\<close> nonzero values in order: a value
  whose bits from 16 upwards are 1 goes to the IPI collaborator, every other value is
  printed as unhandled and the loop goes on.
\<close>

theorem imsic_external_irqfn_claims:
  fixes mtopei :: "nat \<Rightarrow> 'a::len word"
  assumes len: "LENGTH('a) = 32 \<or> LENGTH('a) = 64"
  shows "(mtopei 0 = 0x10001 \<and> mtopei 1 = 0
            \<longrightarrow> imsic_external_irqfn mtopei = Some (Inr (), [IPI_PROCESS], 2))
       \<and> (mtopei n = 0 \<and> (\<forall>k<n. mtopei k \<noteq> 0)
            \<longrightarrow> imsic_external_irqfn mtopei
                = Some (Inr (), map (\<lambda>k. imsic_dispatch (mtopei k)) [0..<n], Suc n))
       \<and> (imsic_dispatch v = IPI_PROCESS \<longleftrightarrow> drop_bit 16 v = 1)
       \<and> (drop_bit 16 v \<noteq> 1 \<longrightarrow> imsic_dispatch v = PRINTF_UNHANDLED (ucast (drop_bit 16 v)))"
proof -
  have a: "imsic_external_irqfn mtopei = Some (Inr (), [IPI_PROCESS], 2)"
    if "mtopei 0 = 0x10001" "mtopei 1 = 0"
  proof -
    have "\<forall>k<1. mtopei k \<noteq> 0"
      using that dispatch_ipi(2) [OF len] by simp
    from claim_loop_run [OF that(2) this, of 0 "[]"] show ?thesis
      using that dispatch_ipi(1) [OF len] by (simp add: imsic_external_irqfn_def)
  qed
  have b: "imsic_external_irqfn mtopei
      = Some (Inr (), map (\<lambda>k. imsic_dispatch (mtopei k)) [0..<n], Suc n)"
    if "mtopei n = 0" "\<forall>k<n. mtopei k \<noteq> 0"
    using claim_loop_run [OF that, of 0 "[]"] by (simp add: imsic_external_irqfn_def)
  have c: "(imsic_dispatch v = IPI_PROCESS \<longleftrightarrow> drop_bit 16 v = 1)"
    "drop_bit 16 v \<noteq> 1 \<Longrightarrow> imsic_dispatch v = PRINTF_UNHANDLED (ucast (drop_bit 16 v))"
    by (simp_all add: imsic_dispatch_def Let_def IMSIC_TOPEI_ID_SHIFT_def IMSIC_IPI_ID_def)
  show ?thesis using a b c by blast
qed

theorem imsic_external_irqfn_claims_witness:
  "imsic_external_irqfn (\<lambda>n. if n = 0 then (0x10001 :: 64 word) else 0)
      = Some (Inr (), [IPI_PROCESS], 2)
   \<and> imsic_external_irqfn (\<lambda>n. if n = 0 then (0x10001 :: 64 word)
                                 else if n = 1 then 0x50000 else 0)
      = Some (Inr (), [IPI_PROCESS, PRINTF_UNHANDLED 5], 3)"
proof -
  let ?m1 = "\<lambda>n::nat. if n = 0 then (0x10001 :: 64 word) else 0"
  let ?m2 = "\<lambda>n::nat. if n = 0 then (0x10001 :: 64 word) else if n = 1 then 0x50000 else 0"
  have a: "LENGTH(64) = 32 \<or> LENGTH(64) = 64"
    by simp
  have d: "imsic_dispatch (0x10001 :: 64 word) = IPI_PROCESS"
    "imsic_dispatch (0x50000 :: 64 word) = PRINTF_UNHANDLED 5"
    by (simp_all add: imsic_dispatch_def IMSIC_TOPEI_ID_SHIFT_def IMSIC_IPI_ID_def drop_bit_eq_div)
  have n: "[0..<2] = [0, 1]"
    by (simp add: upt_rec)
  have h1: "?m1 0 = 0x10001 \<and> ?m1 1 = 0"
    by simp
  have h2: "?m2 2 = 0 \<and> (\<forall>k<2. ?m2 k \<noteq> 0)"
    by (auto dest!: less_2_cases)
  from imsic_external_irqfn_claims [OF a, of ?m1 2 0] h1
  have r1: "imsic_external_irqfn ?m1 = Some (Inr (), [IPI_PROCESS], 2)"
    by blast
  from imsic_external_irqfn_claims [OF a, of ?m2 2 0] h2
  have "imsic_external_irqfn ?m2 = Some (Inr (), map (\<lambda>k. imsic_dispatch (?m2 k)) [0..<2], Suc 2)"
    by blast
  then have r2: "imsic_external_irqfn ?m2 = Some (Inr (), [IPI_PROCESS, PRINTF_UNHANDLED 5], 3)"
    by (simp add: n d)
  show ?thesis
    using r1 r2 by (rule conjI)
qed

subsection \<open>Range updates at concrete inputs\<close>

lemma eix_update_none: "imsic_local_eix_update base_id 0 pend val = []"
  by (simp add: imsic_local_eix_update_def eix_update_loop.simps)

lemma eix_word_mask_62: "eix_word_mask (65 :: 32 word) 30 62 0 = (64, 0xC0000000)"
  by (simp add: eix_word_mask.simps riscv_xlen_def)

lemma eix_word_mask_64: "eix_word_mask (65 :: 32 word) 0 64 0 = (65, 1)"
  by (simp add: eix_word_mask.simps riscv_xlen_def)

text \<open>
  Claim C2. On a 32-bit architecture \<^verbatim>\<open>imsic_local_eix_update(62, 3, pend, val)\<close> issues
  exactly two select-then-access pairs: it selects the register that holds identities 62
  and 63 (the second of the array) and sets or clears bits 30 and 31, then selects the
  register that holds identity 64 (the third) and sets or clears bit 0. For every word
  width and every \<open>base_id\<close>, a call with a count of 0 issues nothing.
\<close>

theorem imsic_local_eix_update_62_3:
  "imsic_local_eix_update (62 :: 32 word) 3 pend val
     = [CSR_WRITE CSR_MISELECT (eix_isel pend 62),
        (if val then CSR_SET else CSR_CLEAR) CSR_MIREG (push_bit 30 1 OR push_bit 31 1),
        CSR_WRITE CSR_MISELECT (eix_isel pend 64),
        (if val then CSR_SET else CSR_CLEAR) CSR_MIREG (push_bit 0 1)]
   \<and> eix_isel pend (62 :: 32 word) = (if pend then IMSIC_EIP0 else IMSIC_EIE0) + 1
   \<and> eix_isel pend (63 :: 32 word) = (if pend then IMSIC_EIP0 else IMSIC_EIE0) + 1
   \<and> eix_isel pend (64 :: 32 word) = (if pend then IMSIC_EIP0 else IMSIC_EIE0) + 2
   \<and> (\<forall>base_id :: 'a::len word. imsic_local_eix_update base_id 0 pend val = [])"
  by (simp add: eix_update_none)
    (simp add: imsic_local_eix_update_def eix_update_loop.simps riscv_xlen_def
      eix_word_mask_62 eix_word_mask_64 eix_isel_def IMSIC_EIPx_BITS_def
      imsic_csr_set_def imsic_csr_clear_def)

theorem imsic_local_eix_update_62_3_witness:
  "imsic_local_eix_update (62 :: 32 word) 3 False True
     = [CSR_WRITE CSR_MISELECT 0xc1, CSR_SET CSR_MIREG 0xC0000000,
        CSR_WRITE CSR_MISELECT 0xc2, CSR_SET CSR_MIREG 1]
   \<and> imsic_local_eix_update (62 :: 32 word) 3 True False
     = [CSR_WRITE CSR_MISELECT 0x81, CSR_CLEAR CSR_MIREG 0xC0000000,
        CSR_WRITE CSR_MISELECT 0x82, CSR_CLEAR CSR_MIREG 1]
   \<and> imsic_local_eix_update (5 :: 64 word) 0 False True = []"
  using imsic_local_eix_update_62_3 [where 'a = 64 and pend = False and val = True]
    imsic_local_eix_update_62_3 [where 'a = 64 and pend = True and val = False]
  by (simp add: IMSIC_EIP0_def IMSIC_EIE0_def)

subsection \<open>The window walk\<close>



subsection \<open>Sending an inter-processor interrupt\<close>







subsection \<open>Range updates in general\<close>

lemma unat_word_succ:
  fixes a b :: "'a::len word"
  assumes "a < b"
  shows "unat (a + 1) = Suc (unat a)"
proof -
  have "unat b < 2 ^ LENGTH('a)"
    by simp
  moreover have "unat a < unat b"
    using assms by (simp add: word_less_nat_alt)
  ultimately have "unat a + 1 < 2 ^ LENGTH('a)"
    by linarith
  then have "unat a + unat (1 :: 'a word) < 2 ^ LENGTH('a)"
    by simp
  then show ?thesis
    by (simp add: unat_add_lem [THEN iffD1])
qed

lemma unat_riscv_xlen: "unat (riscv_xlen TYPE('a::len)) = LENGTH('a)"
  by (simp add: riscv_xlen_def unat_of_nat)

lemma bit_single:
  "bit (push_bit n 1 :: 'a::len word) k \<longleftrightarrow> k = n \<and> n < LENGTH('a)"
  by (auto simp: bit_exp_iff possible_bit_word)

lemma eix_word_mask_spec:
  fixes last_id i idn ireg :: "'a::len word"
  shows "unat (fst (eix_word_mask last_id i idn ireg))
          = unat idn + min (unat last_id - unat idn) (LENGTH('a) - unat i)
       \<and> (\<forall>k. bit (snd (eix_word_mask last_id i idn ireg)) k \<longleftrightarrow>
              bit ireg k
              \<or> (unat i \<le> k \<and> k < unat i + min (unat last_id - unat idn) (LENGTH('a) - unat i)))"
proof (induction last_id i idn ireg rule: eix_word_mask.induct)
  case (1 last_id i idn ireg)
  show ?case
  proof (cases "idn < last_id \<and> i < riscv_xlen TYPE('a)")
    case True
    have e: "eix_word_mask last_id i idn ireg
        = eix_word_mask last_id (i + 1) (idn + 1) (ireg OR push_bit (unat i) 1)"
      using True by (subst eix_word_mask.simps) simp
    have s: "unat (idn + 1) = Suc (unat idn)" "unat (i + 1) = Suc (unat i)"
      using True unat_word_succ by blast+
    have l: "unat idn < unat last_id" "unat i < LENGTH('a)"
      using True by (simp_all add: word_less_nat_alt unat_riscv_xlen)
    define n' where "n' = min (unat last_id - Suc (unat idn)) (LENGTH('a) - Suc (unat i))"
    have m: "min (unat last_id - unat idn) (LENGTH('a) - unat i) = Suc n'"
      unfolding n'_def using l by arith
    have ih: "unat (fst (eix_word_mask last_id (i + 1) (idn + 1) (ireg OR push_bit (unat i) 1)))
          = Suc (unat idn) + n'"
      "\<And>k. bit (snd (eix_word_mask last_id (i + 1) (idn + 1) (ireg OR push_bit (unat i) 1))) k
          \<longleftrightarrow> bit (ireg OR push_bit (unat i) 1) k \<or> (Suc (unat i) \<le> k \<and> k < Suc (unat i) + n')"
      using "1.IH" [OF True] unfolding s n'_def by blast+
    have b: "bit (ireg OR push_bit (unat i) 1) k \<longleftrightarrow> bit ireg k \<or> k = unat i" for k
      using l by (simp only: bit_or_iff bit_single) blast
    show ?thesis
      unfolding e m using ih(1) by (auto simp only: ih(2) b)
  next
    case False
    then have e: "eix_word_mask last_id i idn ireg = (idn, ireg)"
      by (subst eix_word_mask.simps) auto
    have "min (unat last_id - unat idn) (LENGTH('a) - unat i) = 0"
      using False by (auto simp: word_less_nat_alt unat_riscv_xlen min_def)
    then show ?thesis
      by (auto simp: e)
  qed
qed


lemma unat_and_xlen:
  fixes idn :: "'a::len word"
  assumes len: "LENGTH('a) = 32 \<or> LENGTH('a) = 64"
  shows "unat (idn AND (riscv_xlen TYPE('a) - 1)) = unat idn mod LENGTH('a)"
  using len
proof
  assume l: "LENGTH('a) = 32"
  then have "riscv_xlen TYPE('a) - 1 = (push_bit 5 1 - 1 :: 'a word)"
    by (simp add: riscv_xlen_def)
  then show ?thesis
    using unat_and_low_mask [of idn 5] l by simp
next
  assume l: "LENGTH('a) = 64"
  then have "riscv_xlen TYPE('a) - 1 = (push_bit 6 1 - 1 :: 'a word)"
    by (simp add: riscv_xlen_def)
  then show ?thesis
    using unat_and_low_mask [of idn 6] l by simp
qed

lemma eix_isel_in_array:
  fixes idn :: "'a::len word"
  assumes len: "LENGTH('a) = 32 \<or> LENGTH('a) = 64"
    and b: "unat idn < 2048"
  shows "unat (eix_isel pend idn)
      = unat idn div LENGTH('a) * (LENGTH('a) div 32) + (if pend then 0x80 else 0xc0)"
    and "unat idn div LENGTH('a) * (LENGTH('a) div 32) \<le> 63"
proof -
  let ?f = "LENGTH('a) div IMSIC_EIPx_BITS"
  let ?q = "unat idn div LENGTH('a)"
  have f: "?f = LENGTH('a) div 32"
    by (simp add: IMSIC_EIPx_BITS_def)
  have q: "unat (idn div riscv_xlen TYPE('a)) = ?q"
    by (simp add: unat_div unat_riscv_xlen)
  have uf: "unat (of_nat ?f :: 'a word) = LENGTH('a) div 32"
    using len by (auto simp: unat_of_nat f)
  show le: "?q * (LENGTH('a) div 32) \<le> 63"
    using len b by auto
  have big: "(2::nat) ^ 32 \<le> 2 ^ LENGTH('a)"
    using len by (intro power_increasing) auto
  have "unat (idn div riscv_xlen TYPE('a)) * unat (of_nat ?f :: 'a word) < 2 ^ LENGTH('a)"
    using le big by (simp only: q uf) simp
  then have o: "unat (idn div riscv_xlen TYPE('a) * of_nat ?f) = ?q * (LENGTH('a) div 32)"
    by (simp only: unat_mult_lem [THEN iffD1] q uf)
  have ub: "unat (if pend then IMSIC_EIP0 else IMSIC_EIE0 :: 'a word)
      = (if pend then 0x80 else 0xc0)"
    using len by (auto simp: IMSIC_EIP0_def IMSIC_EIE0_def unat_numeral)
  have "unat (idn div riscv_xlen TYPE('a) * of_nat ?f)
      + unat (if pend then IMSIC_EIP0 else IMSIC_EIE0 :: 'a word) < 2 ^ LENGTH('a)"
    using le big by (simp only: o ub) (simp split: if_splits)
  then have "unat (idn div riscv_xlen TYPE('a) * of_nat ?f
        + (if pend then IMSIC_EIP0 else IMSIC_EIE0))
      = ?q * (LENGTH('a) div 32) + (if pend then 0x80 else 0xc0)"
    by (simp only: unat_add_lem [THEN iffD1] o ub)
  then show "unat (eix_isel pend idn)
      = ?q * (LENGTH('a) div 32) + (if pend then 0x80 else 0xc0)"
    by (simp only: eix_isel_def)
qed

text \<open>
  The register and the bit that the code computes for an identity below 2048 address
  that identity in the array asked for, and no other bit.
\<close>

lemma eix_mask_bits_isel:
  fixes idn m :: "'a::len word"
  assumes len: "LENGTH('a) = 32 \<or> LENGTH('a) = 64"
    and b: "unat idn < 2048"
  shows "eix_mask_bits (eix_isel pend idn, m)
      = (\<lambda>k. (pend, unat idn div LENGTH('a) * LENGTH('a) + k))
          ` {k \<in> {0..<LENGTH('a)}. bit m k}"
proof -
  let ?L = "LENGTH('a)"
  let ?o = "unat idn div ?L * (?L div 32)"
  note u = eix_isel_in_array [OF len b]
  have c: "unat (0x80 :: 'a word) = 0x80" "unat (0xbf :: 'a word) = 0xbf"
    "unat (0xc0 :: 'a word) = 0xc0" "unat (0xff :: 'a word) = 0xff"
    using len by (auto simp: unat_numeral)
  have m: "?o mod (?L div 32) = 0" "?o * 32 = unat idn div ?L * ?L"
    using len by auto
  show ?thesis
  proof (cases pend)
    case True
    have ui: "unat (eix_isel pend idn) = ?o + 0x80"
      using u(1) [of pend] True by simp
    have r1: "(0x80 :: 'a word) \<le> eix_isel pend idn"
      unfolding word_le_nat_alt c ui by simp
    have r2: "eix_isel pend idn \<le> (0xbf :: 'a word)"
      unfolding word_le_nat_alt c ui using u(2) by simp
    have d: "unat (eix_isel pend idn - 0x80) = ?o"
      by (simp only: unat_sub [OF r1] ui c add_diff_cancel_right')
    have "eix_mask_bits (eix_isel pend idn, m)
        = (\<lambda>k. (True, ?o * 32 + k)) ` {k \<in> {0..<?L}. bit m k}"
      using r1 r2 m(1)
      by (simp add: eix_mask_bits_def IMSIC_EIP0_def IMSIC_EIP63_def IMSIC_EIPx_BITS_def d)
    then show ?thesis
      using True by (simp only: m(2))
  next
    case False
    have ui: "unat (eix_isel pend idn) = ?o + 0xc0"
      using u(1) [of pend] False by simp
    have n: "\<not> eix_isel pend idn \<le> (0xbf :: 'a word)"
      unfolding word_le_nat_alt c ui by simp
    have r1: "(0xc0 :: 'a word) \<le> eix_isel pend idn"
      unfolding word_le_nat_alt c ui by simp
    have r2: "eix_isel pend idn \<le> (0xff :: 'a word)"
      unfolding word_le_nat_alt c ui using u(2) by simp
    have d: "unat (eix_isel pend idn - 0xc0) = ?o"
      by (simp only: unat_sub [OF r1] ui c add_diff_cancel_right')
    have "eix_mask_bits (eix_isel pend idn, m)
        = (\<lambda>k. (False, ?o * 32 + k)) ` {k \<in> {0..<?L}. bit m k}"
      using r1 r2 n m(1)
      by (simp add: eix_mask_bits_def IMSIC_EIP0_def IMSIC_EIP63_def IMSIC_EIE0_def IMSIC_EIE63_def
          IMSIC_EIPx_BITS_def IMSIC_EIEx_BITS_def d)
    then show ?thesis
      using False by (simp only: m(2))
  qed
qed


lemma eix_chunk:
  fixes idn last_id :: "'a::len word"
  assumes len: "LENGTH('a) = 32 \<or> LENGTH('a) = 64"
    and lt: "idn < last_id"
    and bd: "unat last_id \<le> 2048"
    and w: "eix_word_mask last_id (idn AND (riscv_xlen TYPE('a) - 1)) idn 0 = (idn', ireg)"
  shows "unat idn < unat idn'" "unat idn' \<le> unat last_id" "ireg \<noteq> 0"
    "eix_mask_bits (eix_isel pend idn, ireg) = {pend} \<times> {unat idn ..< unat idn'}"
proof -
  let ?L = "LENGTH('a)"
  let ?r = "unat idn mod ?L"
  define n where "n = min (unat last_id - unat idn) (?L - ?r)"
  have i: "unat (idn AND (riscv_xlen TYPE('a) - 1)) = ?r"
    by (rule unat_and_xlen [OF len])
  have r: "?r < ?L"
    by simp
  have l: "unat idn < unat last_id"
    using lt by (simp add: word_less_nat_alt)
  have n: "0 < n" "?r + n \<le> ?L" "unat idn + n \<le> unat last_id"
    using r l unfolding n_def by arith+
  note sp = eix_word_mask_spec [of last_id "idn AND (riscv_xlen TYPE('a) - 1)" idn 0,
      unfolded w i, folded n_def, simplified]
  have u: "unat idn' = unat idn + n"
    using sp by blast
  have b: "bit ireg k \<longleftrightarrow> ?r \<le> k \<and> k < ?r + n" for k
    using sp by blast
  show "unat idn < unat idn'" "unat idn' \<le> unat last_id"
    using u n by simp_all
  have "bit ireg ?r"
    using b n by simp
  then show "ireg \<noteq> 0"
    by auto
  have s: "{k \<in> {0..<?L}. bit ireg k} = {?r ..< ?r + n}"
    using n by (auto simp: b)
  have "unat idn < 2048"
    using l bd by simp
  then have mb: "eix_mask_bits (eix_isel pend idn, ireg)
      = (\<lambda>k. (pend, unat idn div ?L * ?L + k)) ` {?r ..< ?r + n}"
    by (simp only: eix_mask_bits_isel [OF len] s)
  have "(\<lambda>k. unat idn div ?L * ?L + k) ` {?r ..< ?r + n}
      = (\<lambda>k. k + unat idn div ?L * ?L) ` {?r ..< ?r + n}"
    by (simp add: add.commute)
  also have "\<dots> = {?r + unat idn div ?L * ?L ..< ?r + n + unat idn div ?L * ?L}"
    by (rule image_add_atLeastLessThan')
  also have "\<dots> = {unat idn ..< unat idn + n}"
    by (simp add: add.commute add.left_commute mult.commute)
  finally have t: "(\<lambda>k. unat idn div ?L * ?L + k) ` {?r ..< ?r + n} = {unat idn ..< unat idn'}"
    by (simp only: u)
  have "(\<lambda>k. (pend, unat idn div ?L * ?L + k)) ` {?r ..< ?r + n}
      = Pair pend ` ((\<lambda>k. unat idn div ?L * ?L + k) ` {?r ..< ?r + n})"
    by (simp only: image_image)
  also have "\<dots> = {pend} \<times> {unat idn ..< unat idn'}"
    unfolding t by auto
  finally show "eix_mask_bits (eix_isel pend idn, ireg) = {pend} \<times> {unat idn ..< unat idn'}"
    by (simp only: mb)
qed

lemma csr_accesses_emit:
  "csr_accesses ((if val then imsic_csr_set c v else imsic_csr_clear c v) @ ops)
     = (c, v) # csr_accesses ops"
  by (simp add: imsic_csr_set_def imsic_csr_clear_def)

lemma eix_update_loop_spec:
  fixes idn last_id :: "'a::len word"
  assumes len: "LENGTH('a) = 32 \<or> LENGTH('a) = 64"
  shows "unat last_id \<le> 2048 \<Longrightarrow>
      eix_update_loop idn last_id pend val
        = concat (map (\<lambda>(c, v). if val then imsic_csr_set c v else imsic_csr_clear c v)
            (csr_accesses (eix_update_loop idn last_id pend val)))
    \<and> (\<forall>acc \<in> set (csr_accesses (eix_update_loop idn last_id pend val)).
          snd acc \<noteq> 0 \<and> eix_mask_bits acc \<subseteq> {pend} \<times> {unat idn ..< unat last_id})
    \<and> (\<forall>x \<in> {unat idn ..< unat last_id}.
          \<exists>!j. j < length (csr_accesses (eix_update_loop idn last_id pend val))
            \<and> (pend, x) \<in> eix_mask_bits (csr_accesses (eix_update_loop idn last_id pend val) ! j))"
proof (induction idn last_id pend val rule: eix_update_loop.induct)
  case (1 idn last_id pend val)
  note bd = "1.prems"
  show ?case
  proof (cases "idn < last_id")
    case False
    then have "eix_update_loop idn last_id pend val = []"
      by (subst eix_update_loop.simps) simp
    moreover have "{unat idn ..< unat last_id} = {}"
      using False by (simp add: word_less_nat_alt)
    ultimately show ?thesis
      by simp
  next
    case True
    obtain idn' ireg where w:
      "eix_word_mask last_id (idn AND (riscv_xlen TYPE('a) - 1)) idn 0 = (idn', ireg)"
      by (cases "eix_word_mask last_id (idn AND (riscv_xlen TYPE('a) - 1)) idn 0")
    let ?hd = "(eix_isel pend idn, ireg)"
    let ?tl = "csr_accesses (eix_update_loop idn' last_id pend val)"
    let ?emit = "\<lambda>(c, v). if val then imsic_csr_set c v else imsic_csr_clear c v"
    have e: "eix_update_loop idn last_id pend val
        = ?emit ?hd @ eix_update_loop idn' last_id pend val"
      using True w by (subst eix_update_loop.simps) simp
    have a: "csr_accesses (eix_update_loop idn last_id pend val) = ?hd # ?tl"
      unfolding e by (simp only: prod.case csr_accesses_emit)
    note ch = eix_chunk [OF len True bd w]
    note ih = "1.IH" [OF True w [symmetric] bd]
    have ih1: "eix_update_loop idn' last_id pend val = concat (map ?emit ?tl)"
      using ih by blast
    have ih2: "snd acc \<noteq> 0 \<and> eix_mask_bits acc \<subseteq> {pend} \<times> {unat idn' ..< unat last_id}"
      if "acc \<in> set ?tl" for acc
      using ih that by blast
    have ih3: "\<exists>!j. j < length ?tl \<and> (pend, x) \<in> eix_mask_bits (?tl ! j)"
      if "x \<in> {unat idn' ..< unat last_id}" for x
      using ih that by blast
    have c1: "eix_update_loop idn last_id pend val
        = concat (map ?emit (?hd # ?tl))"
      using e ih1 by simp
    have c2: "snd acc \<noteq> 0 \<and> eix_mask_bits acc \<subseteq> {pend} \<times> {unat idn ..< unat last_id}"
      if "acc \<in> set (?hd # ?tl)" for acc
    proof (cases "acc = ?hd")
      case True
      then show ?thesis
        using ch by auto
    next
      case False
      then have "acc \<in> set ?tl"
        using that by simp
      from ih2 [OF this] show ?thesis
        using ch(1) by auto
    qed
    have c3: "\<exists>!j. j < length (?hd # ?tl) \<and> (pend, x) \<in> eix_mask_bits ((?hd # ?tl) ! j)"
      if x: "x \<in> {unat idn ..< unat last_id}" for x
    proof (cases "x < unat idn'")
      case True
      have "0 < length (?hd # ?tl) \<and> (pend, x) \<in> eix_mask_bits ((?hd # ?tl) ! 0)"
        using True x ch(4) by simp
      moreover have "j = 0"
        if j: "j < length (?hd # ?tl) \<and> (pend, x) \<in> eix_mask_bits ((?hd # ?tl) ! j)" for j
      proof (rule ccontr)
        assume "j \<noteq> 0"
        then obtain j' where j': "j = Suc j'"
          by (cases j) auto
        then have "?tl ! j' \<in> set ?tl" "(pend, x) \<in> eix_mask_bits (?tl ! j')"
          using j by auto
        then have "unat idn' \<le> x"
          using ih2 by fastforce
        then show False
          using True by simp
      qed
      ultimately show ?thesis
        by blast
    next
      case False
      then have "x \<in> {unat idn' ..< unat last_id}"
        using x by simp
      from ih3 [OF this] obtain j' where j': "j' < length ?tl" "(pend, x) \<in> eix_mask_bits (?tl ! j')"
        and un: "\<And>k. k < length ?tl \<and> (pend, x) \<in> eix_mask_bits (?tl ! k) \<Longrightarrow> k = j'"
        by blast
      have "Suc j' < length (?hd # ?tl) \<and> (pend, x) \<in> eix_mask_bits ((?hd # ?tl) ! Suc j')"
        using j' by simp
      moreover have "j = Suc j'"
        if j: "j < length (?hd # ?tl) \<and> (pend, x) \<in> eix_mask_bits ((?hd # ?tl) ! j)" for j
      proof (cases j)
        case 0
        then have "x \<in> {unat idn ..< unat idn'}"
          using j ch(4) by simp
        then show ?thesis
          using False by simp
      next
        case (Suc k)
        then have "k < length ?tl \<and> (pend, x) \<in> eix_mask_bits (?tl ! k)"
          using j by simp
        from un [OF this] show ?thesis
          using Suc by simp
      qed
      ultimately show ?thesis
        by blast
    qed
    show ?thesis
      unfolding a
    proof (intro conjI ballI)
      show "eix_update_loop idn last_id pend val = concat (map ?emit (?hd # ?tl))"
        by (rule c1)
    next
      fix acc assume "acc \<in> set (?hd # ?tl)"
      from c2 [OF this]
      show "snd acc \<noteq> 0" "eix_mask_bits acc \<subseteq> {pend} \<times> {unat idn ..< unat last_id}"
        by blast+
    next
      fix x assume "x \<in> {unat idn ..< unat last_id}"
      from c3 [OF this]
      show "\<exists>!j. j < length (?hd # ?tl) \<and> (pend, x) \<in> eix_mask_bits ((?hd # ?tl) ! j)" .
    qed
  qed
qed

text \<open>
  Claim C9, amended. For every \<open>base_id\<close> and count such that the count is 0 or
  \<open>base_id + count \<le> 2048\<close> (the range lies within the 2048 identities of an array,
  so the sum does not wrap and no register beyond the array is selected), at either word
  width, the trace of \<^verbatim>\<open>imsic_local_eix_update\<close> consists of select-then-access pairs
  only, and the bits that their masks address are exactly those of the array asked for
  (pending or enable) for the identities from \<open>base_id\<close> up to but not including
  \<open>base_id + count\<close>: no mask has a bit of an identity outside the range or of the other
  array, each identity of the range is addressed by exactly one of the masks issued, and
  no mask is zero.
\<close>

theorem imsic_local_eix_update_masks:
  fixes base_id num_id :: "'a::len word"
  assumes len: "LENGTH('a) = 32 \<or> LENGTH('a) = 64"
    and bound: "num_id = 0 \<or> unat base_id + unat num_id \<le> 2048"
  shows "imsic_local_eix_update base_id num_id pend val
        = concat (map (\<lambda>(c, v). if val then imsic_csr_set c v else imsic_csr_clear c v)
            (csr_accesses (imsic_local_eix_update base_id num_id pend val)))
    \<and> (\<Union>acc \<in> set (csr_accesses (imsic_local_eix_update base_id num_id pend val)).
          eix_mask_bits acc) = {pend} \<times> {unat base_id ..< unat base_id + unat num_id}
    \<and> (\<forall>x \<in> {unat base_id ..< unat base_id + unat num_id}.
          \<exists>!j. j < length (csr_accesses (imsic_local_eix_update base_id num_id pend val))
            \<and> (pend, x) \<in> eix_mask_bits
                  (csr_accesses (imsic_local_eix_update base_id num_id pend val) ! j))
    \<and> (\<forall>acc \<in> set (csr_accesses (imsic_local_eix_update base_id num_id pend val)).
          snd acc \<noteq> 0)"
proof (cases "num_id = 0")
  case True
  then have "imsic_local_eix_update base_id num_id pend val = []"
    by (simp add: imsic_local_eix_update_def eix_update_loop.simps)
  then show ?thesis
    using True by simp
next
  case False
  then have b: "unat base_id + unat num_id \<le> 2048"
    using bound by simp
  have "(2048 :: nat) < 2 ^ 32"
    by simp
  also have "(2::nat) ^ 32 \<le> 2 ^ LENGTH('a)"
    using len by (intro power_increasing) auto
  finally have "unat base_id + unat num_id < 2 ^ LENGTH('a)"
    using b by simp
  then have ov: "unat (base_id + num_id) = unat base_id + unat num_id"
    by (simp only: unat_add_lem [THEN iffD1])
  then have l: "unat (base_id + num_id) \<le> 2048"
    using b by simp
  let ?accs = "csr_accesses (eix_update_loop base_id (base_id + num_id) pend val)"
  note sp = eix_update_loop_spec [OF len l, of base_id pend val, unfolded ov]
  have sub: "eix_mask_bits acc \<subseteq> {pend} \<times> {unat base_id ..< unat base_id + unat num_id}"
    if "acc \<in> set ?accs" for acc
    using sp that by blast
  have ex: "\<exists>acc \<in> set ?accs. (pend, x) \<in> eix_mask_bits acc"
    if x: "x \<in> {unat base_id ..< unat base_id + unat num_id}" for x
  proof -
    from sp x obtain j where "j < length ?accs" "(pend, x) \<in> eix_mask_bits (?accs ! j)"
      by blast
    then show ?thesis
      using nth_mem by blast
  qed
  have un: "(\<Union>acc \<in> set ?accs. eix_mask_bits acc)
      = {pend} \<times> {unat base_id ..< unat base_id + unat num_id}"
  proof (rule set_eqI)
    fix y
    show "y \<in> (\<Union>acc \<in> set ?accs. eix_mask_bits acc)
        \<longleftrightarrow> y \<in> {pend} \<times> {unat base_id ..< unat base_id + unat num_id}"
      using sub ex by (cases y) blast
  qed
  show ?thesis
    unfolding imsic_local_eix_update_def
    using sp un by blast
qed

text \<open>
  The theorem at 64 bits for three identities from 62 on in the enable array: two masks,
  in the registers \<open>0xc0\<close> and \<open>0xc2\<close>; and for the 2047 identities from 1 on in the
  pending array.
\<close>

theorem imsic_local_eix_update_masks_witness:
  "csr_accesses (imsic_local_eix_update (62 :: 64 word) 3 False True)
      = [(0xc0, 0xC000000000000000), (0xc2, 1)]
   \<and> (\<Union>acc \<in> set (csr_accesses (imsic_local_eix_update (62 :: 64 word) 3 False True)).
          eix_mask_bits acc) = {False} \<times> {62 ..< 65}
   \<and> csr_accesses (imsic_local_eix_update (1 :: 64 word) 2047 True False) \<noteq> []"
proof -
  have a: "LENGTH(64) = 32 \<or> LENGTH(64) = 64"
    by simp
  have w: "eix_word_mask (65 :: 64 word) 62 62 0 = (64, 0xC000000000000000)"
    "eix_word_mask (65 :: 64 word) 0 64 0 = (65, 1)"
    by (simp_all add: eix_word_mask.simps riscv_xlen_def)
  have l: "imsic_local_eix_update (62 :: 64 word) 3 False True
      = [CSR_WRITE CSR_MISELECT 0xc0, CSR_SET CSR_MIREG 0xC000000000000000,
         CSR_WRITE CSR_MISELECT 0xc2, CSR_SET CSR_MIREG 1]"
    by (simp add: imsic_local_eix_update_def eix_update_loop.simps riscv_xlen_def w
        eix_isel_def IMSIC_EIPx_BITS_def IMSIC_EIE0_def imsic_csr_set_def)
  have b1: "(3 :: 64 word) = 0 \<or> unat (62 :: 64 word) + unat (3 :: 64 word) \<le> 2048"
    by simp
  have b2: "(2047 :: 64 word) = 0 \<or> unat (1 :: 64 word) + unat (2047 :: 64 word) \<le> 2048"
    by simp
  from imsic_local_eix_update_masks [OF a b1, of False True]
  have u: "(\<Union>acc \<in> set (csr_accesses (imsic_local_eix_update (62 :: 64 word) 3 False True)).
          eix_mask_bits acc) = {False} \<times> {unat (62 :: 64 word) ..< unat (62 :: 64 word) + unat (3 :: 64 word)}"
    by blast
  from imsic_local_eix_update_masks [OF a b2, of True False]
  have "\<exists>!j. j < length (csr_accesses (imsic_local_eix_update (1 :: 64 word) 2047 True False))
          \<and> (True, 1) \<in> eix_mask_bits
              (csr_accesses (imsic_local_eix_update (1 :: 64 word) 2047 True False) ! j)"
    by simp
  then have n: "csr_accesses (imsic_local_eix_update (1 :: 64 word) 2047 True False) \<noteq> []"
    by auto
  show ?thesis
    using u n by (simp add: l)
qed

text \<open>
  Claim C9 as stated fails outside these bounds. For \<open>2 ^ 64 - 1\<close> identities from 1 on
  the sum wraps to 0 and nothing is issued, though identity 1 is in the range. For the
  one pending identity 2049 the register computed is \<open>0xc0\<close>, the first of the enable
  array: the trace is that of clearing the enable bit of identity 1, and the mask
  addresses that bit, which is outside the range.
\<close>

theorem imsic_local_eix_update_out_of_range:
  "imsic_local_eix_update (1 :: 64 word) 0xFFFFFFFFFFFFFFFF False False = []
   \<and> imsic_local_eix_update (2049 :: 64 word) 1 True False
      = [CSR_WRITE CSR_MISELECT 0xc0, CSR_CLEAR CSR_MIREG 2]
   \<and> imsic_local_eix_update (1 :: 64 word) 1 False False
      = [CSR_WRITE CSR_MISELECT 0xc0, CSR_CLEAR CSR_MIREG 2]
   \<and> eix_mask_bits (0xc0 :: 64 word, 2 :: 64 word) = {(False, 1)}"
proof -
  have a: "LENGTH(64) = 32 \<or> LENGTH(64) = 64"
    by simp
  have "(1 :: 64 word) + 0xFFFFFFFFFFFFFFFF = 0"
    by (simp add: word_eq_iff_unsigned [where ?'a = nat] unat_word_ariths)
  then have e: "imsic_local_eix_update (1 :: 64 word) 0xFFFFFFFFFFFFFFFF False False = []"
    by (simp only: imsic_local_eix_update_def) (simp add: eix_update_loop.simps)
  have w: "eix_word_mask (2050 :: 64 word) 1 2049 0 = (2050, 2)"
    "eix_word_mask (2 :: 64 word) 1 1 0 = (2, 2)"
    by (simp_all add: eix_word_mask.simps riscv_xlen_def)
  have p: "imsic_local_eix_update (2049 :: 64 word) 1 True False
      = [CSR_WRITE CSR_MISELECT 0xc0, CSR_CLEAR CSR_MIREG 2]"
    by (simp add: imsic_local_eix_update_def eix_update_loop.simps riscv_xlen_def w
        eix_isel_def IMSIC_EIPx_BITS_def IMSIC_EIP0_def imsic_csr_clear_def)
  have q: "imsic_local_eix_update (1 :: 64 word) 1 False False
      = [CSR_WRITE CSR_MISELECT 0xc0, CSR_CLEAR CSR_MIREG 2]"
    by (simp add: imsic_local_eix_update_def eix_update_loop.simps riscv_xlen_def w
        eix_isel_def IMSIC_EIPx_BITS_def IMSIC_EIE0_def imsic_csr_clear_def)
  have i: "eix_isel False (1 :: 64 word) = 0xc0"
    by (simp add: eix_isel_def riscv_xlen_def IMSIC_EIPx_BITS_def IMSIC_EIE0_def)
  have "bit (2 :: 64 word) k \<longleftrightarrow> k = 1" for k
    using bit_exp_iff [where ?'a = "64 word", of 1 k] by (auto simp: possible_bit_word)
  then have s: "{k \<in> {0..<LENGTH(64)}. bit (2 :: 64 word) k} = {1}"
    by auto
  have b: "unat (1 :: 64 word) < 2048"
    by simp
  have "eix_mask_bits (eix_isel False (1 :: 64 word), 2 :: 64 word)
      = (\<lambda>k. (False, unat (1 :: 64 word) div LENGTH(64) * LENGTH(64) + k)) ` {1}"
    by (simp only: eix_mask_bits_isel [OF a b] s)
  then have "eix_mask_bits (eix_isel False (1 :: 64 word), 2 :: 64 word) = {(False, 1)}"
    by simp
  then have d: "eix_mask_bits (0xc0 :: 64 word, 2 :: 64 word) = {(False, 1)}"
    by (simp only: i)
  show ?thesis
    using e p q d by blast
qed

end
